theory Spec2Isabelle
  imports Complex_Main
begin

section \<open>Elevation enrichment pipeline (scripts/etl/enrich-elevation.ts)\<close>

text \<open>
  A shallow embedding of the elevation enrichment script. JavaScript numbers are
  modelled as real numbers with exact arithmetic: \<open>NaN\<close>, the infinities and the
  rounding error of IEEE doubles are outside the model. A field that is \<open>null\<close> or
  \<open>undefined\<close> is \<open>None\<close>; the script never tells the two apart (it only uses
  \<open>??\<close>, \<open>||\<close>, \<open>&&\<close> and \<open>=== null\<close> after a \<open>?? null\<close>).
  The wall clock (\<open>lastRunTime\<close>, \<open>elevation_enriched_at\<close>) and console output are
  left out.
\<close>

subsection \<open>Numbers\<close>

text \<open>\<open>Math.round\<close>: the nearest integer, a tie going towards plus infinity.\<close>

definition js_round :: "real \<Rightarrow> real" where
  "js_round x = of_int \<lfloor>x + 1 / 2\<rfloor>"

text \<open>The \<open>%\<close> operator: the remainder of the truncated division (sign of the dividend).\<close>

definition js_rem :: "real \<Rightarrow> real \<Rightarrow> real" where
  "js_rem x m = x - m * of_int (if 0 \<le> x / m then \<lfloor>x / m\<rfloor> else \<lceil>x / m\<rceil>)"

text \<open>\<open>Math.atan2(y, x)\<close>, the angle of the point \<open>(x, y)\<close> in \<open>(-pi, pi]\<close>; 0 at the origin.\<close>

definition js_atan2 :: "real \<Rightarrow> real \<Rightarrow> real" where
  "js_atan2 y x =
     (if 0 < x then arctan (y / x)
      else if x < 0 then (if 0 \<le> y then arctan (y / x) + pi else arctan (y / x) - pi)
      else if 0 < y then pi / 2
      else if y < 0 then - (pi / 2)
      else 0)"

text \<open>Truthiness of a \<open>number | null | undefined\<close>: neither absent nor zero.\<close>

definition truthy :: "real option \<Rightarrow> bool" where
  "truthy v = (case v of None \<Rightarrow> False | Some x \<Rightarrow> x \<noteq> 0)"

text \<open>\<open>v || d\<close> on numbers.\<close>

definition js_or :: "real option \<Rightarrow> real \<Rightarrow> real" where
  "js_or v d = (case v of None \<Rightarrow> d | Some x \<Rightarrow> if x \<noteq> 0 then x else d)"

text \<open>\<open>v ?? d\<close>.\<close>

definition nullish :: "'a option \<Rightarrow> 'a \<Rightarrow> 'a" where
  "nullish v d = (case v of None \<Rightarrow> d | Some x \<Rightarrow> x)"

subsection \<open>Configuration\<close>

definition PROFILE_SAMPLES :: nat where "PROFILE_SAMPLES = 15"
definition MAX_RETRIES :: nat where "MAX_RETRIES = 3"
definition USGS_PROFILE_LIMIT :: nat where "USGS_PROFILE_LIMIT = 100"
definition USGS_CONCURRENCY :: nat where "USGS_CONCURRENCY = 5"
definition CHECKPOINT_INTERVAL :: nat where "CHECKPOINT_INTERVAL = 25"

subsection \<open>Data\<close>

datatype Aspect = N | NE | E | SE | S | SW | W | NW

type_synonym position = "real list"

record profile_point =
  distance_mi :: real
  elevation_m :: real

text \<open>
  The fields of \<open>TrailData\<close> that the script reads or writes. The descriptive fields
  (\<open>cotrex_id\<close>, \<open>name\<close>, \<open>surface\<close>, ...) are only carried along and are left out;
  \<open>geometry\<close> is \<open>geometry.coordinates\<close>.
\<close>

record TrailData =
  length_miles :: "real option"
  elevation_min_m :: "real option"
  elevation_max_m :: "real option"
  geometry :: "position list list"
  elevation_min :: "real option"
  elevation_max :: "real option"
  elevation_gain :: "real option"
  dominant_aspect :: "Aspect option"
  elevation_profile :: "profile_point list option"

record Progress =
  lastProcessedIndex :: int
  processedCount :: int
  errorCount :: int
  usgsCallCount :: int

record sample =
  lat :: real
  lon :: real
  distanceMi :: real

subsection \<open>The turf library\<close>

text \<open>
  \<open>@turf/turf\<close> is an external library, so its three operations are parameters of
  the model. Each may throw (on a malformed position, say), which is \<open>None\<close>:
  \<^item> \<open>turf_length coords\<close> is \<open>turf.length(turf.lineString(coords), {units: 'kilometers'})\<close>;
  \<^item> \<open>turf_along coords d\<close> is the \<open>(longitude, latitude)\<close> of
    \<open>turf.along(turf.lineString(coords), d, {units: 'kilometers'})\<close>;
  \<^item> \<open>turf_bearing p q\<close> is \<open>turf.bearing(turf.point(p), turf.point(q))\<close> in degrees.
\<close>

record turf =
  turf_length :: "position list \<Rightarrow> real option"
  turf_along :: "position list \<Rightarrow> real \<Rightarrow> (real \<times> real) option"
  turf_bearing :: "position \<Rightarrow> position \<Rightarrow> real option"

subsection \<open>getElevation\<close>

text \<open>
  What one \<open>fetch\<close> of the service gives: \<open>Failed\<close> when the request rejects, the
  status is not ok or the body is not JSON (each lands in the \<open>catch\<close>); otherwise
  \<open>Json v\<close> with \<open>v\<close> the body's \<open>value\<close> (\<open>None\<close> when it is undefined).
\<close>

datatype response = Failed | Json "real option"

text \<open>
  The loop \<open>for (attempt = 1; attempt <= MAX_RETRIES; attempt++)\<close>. \<open>fetch a\<close> is
  the outcome of the \<open>a\<close>-th request. The result is the returned elevation, the
  number of requests made, and the delays (in milliseconds) waited, in order.
\<close>

function getElevation_loop ::
  "(nat \<Rightarrow> response) \<Rightarrow> nat \<Rightarrow> nat list \<Rightarrow> real option \<times> nat \<times> nat list" where
  "getElevation_loop fetch attempt delays =
     (if attempt \<le> MAX_RETRIES then
        (case fetch attempt of
           Json v \<Rightarrow>
             (case v of
                Some x \<Rightarrow>
                  if x \<noteq> - 1000000 then (Some (js_round x), attempt, delays)
                  else (None, attempt, delays)
              | None \<Rightarrow> (None, attempt, delays))
         | Failed \<Rightarrow>
             getElevation_loop fetch (attempt + 1)
               (if attempt < MAX_RETRIES then delays @ [1000 * attempt] else delays))
      else (None, attempt - 1, delays))"
  by pat_completeness auto
termination
  by (relation "measure (\<lambda>(fetch, attempt, delays). Suc MAX_RETRIES - attempt)") auto

declare getElevation_loop.simps [simp del]

text \<open>
  The service is the environment: \<open>svc lat lon a\<close> answers the \<open>a\<close>-th request for
  the point \<open>(lat, lon)\<close>.
\<close>

definition getElevation_trace ::
  "(real \<Rightarrow> real \<Rightarrow> nat \<Rightarrow> response) \<Rightarrow> real \<Rightarrow> real \<Rightarrow> real option \<times> nat \<times> nat list" where
  "getElevation_trace svc plat plon = getElevation_loop (svc plat plon) 1 []"

definition getElevation ::
  "(real \<Rightarrow> real \<Rightarrow> nat \<Rightarrow> response) \<Rightarrow> real \<Rightarrow> real \<Rightarrow> real option" where
  "getElevation svc plat plon = fst (getElevation_trace svc plat plon)"

subsection \<open>samplePoints\<close>

text \<open>
  The first loop: the parts with at least two coordinates and a positive length, each with
  its length. \<open>None\<close> when turf throws, which the \<open>catch\<close> turns into \<open>[]\<close>.
\<close>

fun buildSegments ::
  "turf \<Rightarrow> position list list \<Rightarrow> (position list \<times> real) list \<Rightarrow>
   (position list \<times> real) list option" where
  "buildSegments T [] segments = Some segments"
| "buildSegments T (coords # rest) segments =
     (if length coords < 2 then buildSegments T rest segments
      else
        (case turf_length T coords of
           None \<Rightarrow> None
         | Some lengthKm \<Rightarrow>
             buildSegments T rest
               (if 0 < lengthKm then segments @ [(coords, lengthKm)] else segments)))"

text \<open>
  The inner loop over the segments: the first segment that reaches the target distance,
  or the last one. \<open>Some None\<close> is a loop that ends without a push (no segment at all).
\<close>

fun findSegment ::
  "turf \<Rightarrow> real \<Rightarrow> real \<Rightarrow> (position list \<times> real) list \<Rightarrow> (real \<times> real) option option" where
  "findSegment T targetKm accumulated [] = Some None"
| "findSegment T targetKm accumulated ((line, lengthKm) # rest) =
     (if accumulated + lengthKm \<ge> targetKm \<or> rest = [] then
        (let withinSeg = min (targetKm - accumulated) lengthKm in
         case turf_along T line (max 0 withinSeg) of
           None \<Rightarrow> None
         | Some pt \<Rightarrow> Some (Some pt))
      else findSegment T targetKm (accumulated + lengthKm) rest)"

text \<open>The loop \<open>for (i = 0; i < numSamples; i++)\<close>, from \<open>i\<close> on.\<close>

function sampleLoop ::
  "turf \<Rightarrow> (position list \<times> real) list \<Rightarrow> real \<Rightarrow> real \<Rightarrow> nat \<Rightarrow> nat \<Rightarrow> sample list \<Rightarrow>
   sample list option" where
  "sampleLoop T segments totalLengthKm totalLengthMi numSamples i samples =
     (if i < numSamples then
        (let fraction = (if numSamples = 1 then 0 else real i / real (numSamples - 1));
             targetKm = fraction * totalLengthKm;
             distMi = js_round (fraction * totalLengthMi * 100) / 100
         in case findSegment T targetKm 0 segments of
              None \<Rightarrow> None
            | Some None \<Rightarrow>
                sampleLoop T segments totalLengthKm totalLengthMi numSamples (i + 1) samples
            | Some (Some (x, y)) \<Rightarrow>
                sampleLoop T segments totalLengthKm totalLengthMi numSamples (i + 1)
                  (samples @ [\<lparr>lat = y, lon = x, distanceMi = distMi\<rparr>]))
      else Some samples)"
  by pat_completeness auto
termination
  by (relation "measure (\<lambda>(T, segments, km, mi, numSamples, i, samples). numSamples - i)") auto

declare sampleLoop.simps [simp del]

text \<open>
  The total length in miles: the supplied length when it is truthy, else the computed
  length in kilometres converted.
\<close>

definition totalLengthMiOf :: "(position list \<times> real) list \<Rightarrow> real option \<Rightarrow> real" where
  "totalLengthMiOf segments trailLengthMi =
     js_or trailLengthMi (foldl (\<lambda>sum s. sum + snd s) 0 segments * (621371 / 1000000))"

definition samplePoints_try ::
  "turf \<Rightarrow> position list list \<Rightarrow> nat \<Rightarrow> real option \<Rightarrow> sample list option" where
  "samplePoints_try T coordinates numSamples trailLengthMi =
     (case buildSegments T coordinates [] of
        None \<Rightarrow> None
      | Some segments \<Rightarrow>
          if length segments = 0 then Some []
          else
            (let totalLengthKm = foldl (\<lambda>sum s. sum + snd s) 0 segments;
                 totalLengthMi = totalLengthMiOf segments trailLengthMi
             in sampleLoop T segments totalLengthKm totalLengthMi numSamples 0 []))"

definition samplePoints ::
  "turf \<Rightarrow> position list list \<Rightarrow> nat \<Rightarrow> real option \<Rightarrow> sample list" where
  "samplePoints T coordinates numSamples trailLengthMi =
     (case samplePoints_try T coordinates numSamples trailLengthMi of
        None \<Rightarrow> []
      | Some samples \<Rightarrow> samples)"

subsection \<open>interpolateProfile\<close>

definition interpolatePoint :: "real \<Rightarrow> real \<Rightarrow> real \<Rightarrow> nat \<Rightarrow> nat \<Rightarrow> profile_point" where
  "interpolatePoint minElev maxElev lengthMi numPoints i =
     (let fraction = (if numPoints = 1 then 0 else real i / real (numPoints - 1));
          distMi = js_round (fraction * lengthMi * 100) / 100;
          t = (if fraction \<le> 1 / 2 then fraction * 2 else 2 - fraction * 2);
          elevation = js_round (minElev + t * (maxElev - minElev))
      in \<lparr>distance_mi = distMi, elevation_m = elevation\<rparr>)"

text \<open>The minimum and maximum the interpolation uses (lines 173 and 174).\<close>

definition minElevOf :: "TrailData \<Rightarrow> real" where
  "minElevOf trail = nullish (elevation_min_m trail) (nullish (elevation_min trail) 2000)"

definition maxElevOf :: "TrailData \<Rightarrow> real" where
  "maxElevOf trail = nullish (elevation_max_m trail) (nullish (elevation_max trail) 2500)"

definition interpolateProfile :: "TrailData \<Rightarrow> nat \<Rightarrow> profile_point list" where
  "interpolateProfile trail numPoints =
     (let minElev = minElevOf trail;
          maxElev = maxElevOf trail;
          lengthMi = nullish (length_miles trail) 1
      in map (interpolatePoint minElev maxElev lengthMi numPoints) [0..<numPoints])"

subsection \<open>calculateDominantAspect\<close>

text \<open>
  The loop over the consecutive pairs of the flattened coordinates, accumulating the sines
  and cosines of the bearings. \<open>None\<close> when turf throws.
\<close>

fun bearingLoop :: "turf \<Rightarrow> position list \<Rightarrow> real \<Rightarrow> real \<Rightarrow> (real \<times> real) option" where
  "bearingLoop T (c1 # c2 # cs) sinSum cosSum =
     (case turf_bearing T c1 c2 of
        None \<Rightarrow> None
      | Some bearing \<Rightarrow>
          bearingLoop T (c2 # cs)
            (sinSum + sin (bearing * pi / 180)) (cosSum + cos (bearing * pi / 180)))"
| "bearingLoop T cs sinSum cosSum = Some (sinSum, cosSum)"

definition octant :: "real \<Rightarrow> Aspect" where
  "octant b =
     (if b \<ge> 337.5 \<or> b < 22.5 then N
      else if b \<ge> 22.5 \<and> b < 67.5 then NE
      else if b \<ge> 67.5 \<and> b < 112.5 then E
      else if b \<ge> 112.5 \<and> b < 157.5 then SE
      else if b \<ge> 157.5 \<and> b < 202.5 then S
      else if b \<ge> 202.5 \<and> b < 247.5 then SW
      else if b \<ge> 247.5 \<and> b < 292.5 then W
      else NW)"

definition meanBearing :: "real \<Rightarrow> real \<Rightarrow> real" where
  "meanBearing sinSum cosSum =
     (let avgBearing = js_atan2 sinSum cosSum * 180 / pi
      in js_rem (js_rem avgBearing 360 + 360) 360)"

definition calculateDominantAspect :: "turf \<Rightarrow> position list list \<Rightarrow> Aspect option" where
  "calculateDominantAspect T coordinates =
     (let coords = concat coordinates in
      if length coords < 2 then None
      else
        (case bearingLoop T coords 0 0 of
           None \<Rightarrow> None
         | Some (sinSum, cosSum) \<Rightarrow> Some (octant (meanBearing sinSum cosSum))))"

subsection \<open>The orchestrator: one eligible trail\<close>

record elev_result =
  idx :: nat
  distMi :: real
  elevation :: "real option"

text \<open>
  The batches of \<open>USGS_CONCURRENCY\<close> requests. The calls of one batch run concurrently
  under \<open>Promise.all\<close>, which returns their results in the order of the batch; each
  call adds one to \<open>usgsCallCount\<close>. \<open>svc k\<close> is the service as the request for
  sample \<open>k\<close> sees it.
\<close>

function fetchBatches ::
  "(nat \<Rightarrow> real \<Rightarrow> real \<Rightarrow> nat \<Rightarrow> response) \<Rightarrow> sample list \<Rightarrow> nat \<Rightarrow>
   elev_result list \<times> Progress \<Rightarrow> elev_result list \<times> Progress" where
  "fetchBatches svc points b (elevResults, progress) =
     (if b < length points then
        (let batch = take USGS_CONCURRENCY (drop b points);
             results =
               map (\<lambda>(bIdx, pt).
                     \<lparr>idx = b + bIdx, distMi = distanceMi pt,
                      elevation = getElevation (svc (b + bIdx)) (lat pt) (lon pt)\<rparr>)
                 (enumerate 0 batch)
         in fetchBatches svc points (b + USGS_CONCURRENCY)
              (elevResults @ results,
               progress\<lparr>usgsCallCount := usgsCallCount progress + int (length batch)\<rparr>))
      else (elevResults, progress))"
  by pat_completeness auto
termination
  by (relation "measure (\<lambda>(svc, points, b, acc). length points - b)")
    (auto simp: USGS_CONCURRENCY_def)

declare fetchBatches.simps [simp del]

text \<open>
  The loop that builds the profile from the resolved results and adds up the gain;
  \<open>prevElev\<close> is the last resolved elevation.
\<close>

fun buildProfile ::
  "elev_result list \<Rightarrow> profile_point list \<Rightarrow> real \<Rightarrow> real option \<Rightarrow>
   profile_point list \<times> real" where
  "buildProfile [] profile gain prevElev = (profile, gain)"
| "buildProfile (r # rs) profile gain prevElev =
     (case elevation r of
        None \<Rightarrow> buildProfile rs profile gain prevElev
      | Some e \<Rightarrow>
          buildProfile rs (profile @ [\<lparr>distance_mi = distMi r, elevation_m = e\<rparr>])
            (case prevElev of
               None \<Rightarrow> gain
             | Some p \<Rightarrow> if e > p then gain + (e - p) else gain)
            (Some e))"

text \<open>
  \<open>trail.elevation_max && trail.elevation_min ? Math.round((max - min) / 2) : null\<close>,
  which the script writes twice (lines 377 and 397).
\<close>

definition halfSpreadGain :: "TrailData \<Rightarrow> real option" where
  "halfSpreadGain trail =
     (case elevation_max trail of
        None \<Rightarrow> None
      | Some mx \<Rightarrow>
          (case elevation_min trail of
             None \<Rightarrow> None
           | Some mn \<Rightarrow>
               if mx \<noteq> 0 \<and> mn \<noteq> 0 then Some (js_round ((mx - mn) / 2)) else None))"

text \<open>
  The body of the \<open>try\<close> for an eligible trail. Nothing in it throws: \<open>samplePoints\<close>
  and \<open>getElevation\<close> catch their own failures, so the \<open>catch\<close> of the script (which
  counts an error) is never entered and \<open>errorCount\<close> is never changed.
\<close>

definition usgsProfile ::
  "turf \<Rightarrow> (nat \<Rightarrow> real \<Rightarrow> real \<Rightarrow> nat \<Rightarrow> response) \<Rightarrow> TrailData \<Rightarrow> Progress \<Rightarrow>
   TrailData \<times> Progress" where
  "usgsProfile T svc trail progress =
     (let points = samplePoints T (geometry trail) PROFILE_SAMPLES (length_miles trail);
          (elevResults, progress1) = fetchBatches svc points 0 ([], progress);
          sorted = sort_key idx elevResults;
          (profile, gain) = buildProfile sorted [] 0 None;
          progress2 = progress1\<lparr>processedCount := processedCount progress1 + 1\<rparr>
      in if length profile > 0 then
           (let trail1 = trail\<lparr>elevation_profile := Some profile,
                                elevation_gain := Some (js_round gain)\<rparr>;
                trail2 =
                  (if elevation_min trail1 = None
                   then trail1\<lparr>elevation_min := Some (Min (set (map elevation_m profile)))\<rparr>
                   else trail1);
                trail3 =
                  (if elevation_max trail2 = None
                   then trail2\<lparr>elevation_max := Some (Max (set (map elevation_m profile)))\<rparr>
                   else trail2)
            in (trail3, progress2))
         else
           (trail\<lparr>elevation_profile := Some (interpolateProfile trail 10),
                   elevation_gain := halfSpreadGain trail\<rparr>,
            progress2))"

subsection \<open>The orchestrator: the run\<close>

text \<open>
  The files of the script and, as a ghost field, the writes it has made, in order.
  \<open>input_file\<close> and \<open>raw_file\<close> hold the \<open>trails\<close> of the two candidate inputs.
\<close>

record files =
  input_file :: "TrailData list option"
  raw_file :: "TrailData list option"
  output_file :: "TrailData list option"
  progress_file :: "Progress option"

datatype event = SaveTrails "TrailData list" | SaveProgress Progress | DeleteProgress

record state =
  trails :: "TrailData list"
  progress :: Progress
  fs :: files
  writes :: "event list"

datatype error = NoInputFile | TypeError

definition loadProgress :: "files \<Rightarrow> Progress" where
  "loadProgress f =
     (case progress_file f of
        Some p \<Rightarrow> p
      | None \<Rightarrow> \<lparr>lastProcessedIndex = - 1, processedCount = 0, errorCount = 0,
                  usgsCallCount = 0\<rparr>)"

definition saveProgress :: "state \<Rightarrow> state" where
  "saveProgress st =
     st\<lparr>fs := (fs st)\<lparr>progress_file := Some (progress st)\<rparr>,
        writes := writes st @ [SaveProgress (progress st)]\<rparr>"

definition saveTrails :: "state \<Rightarrow> state" where
  "saveTrails st =
     st\<lparr>fs := (fs st)\<lparr>output_file := Some (trails st)\<rparr>,
        writes := writes st @ [SaveTrails (trails st)]\<rparr>"

definition unlinkProgress :: "state \<Rightarrow> state" where
  "unlinkProgress st =
     st\<lparr>fs := (fs st)\<lparr>progress_file := None\<rparr>, writes := writes st @ [DeleteProgress]\<rparr>"

text \<open>
  The top \<open>USGS_PROFILE_LIMIT\<close> indices by descending length. \<open>Array.prototype.sort\<close>
  is stable, as \<open>sort_key\<close> is.
\<close>

definition usgsEligible :: "TrailData list \<Rightarrow> nat set" where
  "usgsEligible ts =
     (let trailsByLength =
            sort_key (\<lambda>(i, len). - len)
              (map (\<lambda>(i, t). (i, js_or (length_miles t) 0)) (enumerate 0 ts))
      in set (map fst (take USGS_PROFILE_LIMIT trailsByLength)))"

definition has_profile :: "TrailData \<Rightarrow> bool" where
  "has_profile trail =
     (case elevation_profile trail of None \<Rightarrow> False | Some p \<Rightarrow> length p > 0)"

text \<open>
  The body of the main loop for index \<open>i\<close>. The script mutates \<open>trails[i]\<close> in place,
  which is the list update here. \<open>svc i k\<close> is the service as the request for sample
  \<open>k\<close> of trail \<open>i\<close> sees it. \<open>resolveBaseFields\<close> is lines 317 to 321: the
  supplied minimum and maximum, and the aspect.
\<close>

definition resolveBaseFields :: "turf \<Rightarrow> TrailData \<Rightarrow> TrailData" where
  "resolveBaseFields T trail =
     (let trail1 = trail\<lparr>elevation_min := elevation_min_m trail,
                          elevation_max := elevation_max_m trail\<rparr>
      in trail1\<lparr>dominant_aspect := calculateDominantAspect T (geometry trail1)\<rparr>)"

definition iteration ::
  "turf \<Rightarrow> (nat \<Rightarrow> nat \<Rightarrow> real \<Rightarrow> real \<Rightarrow> nat \<Rightarrow> response) \<Rightarrow> nat set \<Rightarrow> nat \<Rightarrow> state \<Rightarrow>
   state" where
  "iteration T svc eligible i st =
     (let trail = trails st ! i in
      if has_profile trail then st
      else
        (let trail2 = resolveBaseFields T trail;
             (trail3, progress1) =
               (if i \<in> eligible then usgsProfile T (svc i) trail2 (progress st)
                else
                  (trail2\<lparr>elevation_profile := Some (interpolateProfile trail2 10),
                          elevation_gain := halfSpreadGain trail2\<rparr>,
                   (progress st)\<lparr>processedCount := processedCount (progress st) + 1\<rparr>));
             progress2 = progress1\<lparr>lastProcessedIndex := int i\<rparr>;
             st1 = st\<lparr>trails := (trails st)[i := trail3], progress := progress2\<rparr>
         in if (i + 1) mod CHECKPOINT_INTERVAL = 0 \<and> i \<in> eligible
            then saveProgress (saveTrails st1)
            else st1))"

text \<open>The loop \<open>for (i = startIndex; i < total; i++)\<close>, from \<open>i\<close> on.\<close>

function mainLoop ::
  "turf \<Rightarrow> (nat \<Rightarrow> nat \<Rightarrow> real \<Rightarrow> real \<Rightarrow> nat \<Rightarrow> response) \<Rightarrow> nat set \<Rightarrow> nat \<Rightarrow> nat \<Rightarrow>
   state \<Rightarrow> state" where
  "mainLoop T svc eligible total' i st =
     (if i < total' then mainLoop T svc eligible total' (i + 1) (iteration T svc eligible i st)
      else st)"
  by pat_completeness auto
termination
  by (relation "measure (\<lambda>(T, svc, eligible, total', i, st). total' - i)") auto

declare mainLoop.simps [simp del]

text \<open>
  The main function. With no input file the script exits with status 1
  (\<open>NoInputFile\<close>). A progress record whose \<open>lastProcessedIndex\<close> is below \<open>-1\<close>
  gives a negative start index: the loop then reads \<open>trails[i]\<close> at a negative index,
  which is undefined, and the property access throws (\<open>TypeError\<close>) before anything
  is changed.
\<close>

definition loadInput :: "files \<Rightarrow> TrailData list option" where
  "loadInput f = (case input_file f of Some d \<Rightarrow> Some d | None \<Rightarrow> raw_file f)"

text \<open>
  On a resumed run (\<open>startIndex > 0\<close>) the trails are those of the output file, when it
  exists.
\<close>

definition resumeTrails :: "files \<Rightarrow> int \<Rightarrow> TrailData list \<Rightarrow> TrailData list" where
  "resumeTrails f startIndex rawTrails =
     (if startIndex > 0
      then (case output_file f of Some ts \<Rightarrow> ts | None \<Rightarrow> rawTrails)
      else rawTrails)"

definition enrichTrailsWithElevation ::
  "turf \<Rightarrow> (nat \<Rightarrow> nat \<Rightarrow> real \<Rightarrow> real \<Rightarrow> nat \<Rightarrow> response) \<Rightarrow> files \<Rightarrow> error + state" where
  "enrichTrailsWithElevation T svc f =
     (case loadInput f of
        None \<Rightarrow> Inl NoInputFile
      | Some rawTrails \<Rightarrow>
          (let progress0 = loadProgress f;
               startIndex = lastProcessedIndex progress0 + 1;
               trails0 = resumeTrails f startIndex rawTrails;
               total' = length trails0;
               eligible = usgsEligible trails0
           in if startIndex < 0 then Inl TypeError
              else
                (let st = mainLoop T svc eligible total' (nat startIndex)
                            \<lparr>trails = trails0, progress = progress0, fs = f, writes = []\<rparr>;
                     st1 = saveTrails st
                 in Inr (if progress_file (fs st1) \<noteq> None then unlinkProgress st1 else st1))))"

section \<open>Reference notions\<close>

text \<open>
  What the properties below are stated with. None of these is part of the script.
\<close>

text \<open>
  The sum of the positive deltas between consecutive elevations of a profile.
\<close>

fun positiveDeltaSum :: "real list \<Rightarrow> real" where
  "positiveDeltaSum (a # b # rest) = (if b - a > 0 then b - a else 0) + positiveDeltaSum (b # rest)"
| "positiveDeltaSum es = 0"

text \<open>
  The sampled points of a trail that the service resolves, in the order of the samples:
  sample \<open>k\<close> contributes its distance and the elevation \<open>getElevation\<close> returns for it,
  when it returns one.
\<close>

definition resolvedPoints ::
  "turf \<Rightarrow> (nat \<Rightarrow> real \<Rightarrow> real \<Rightarrow> nat \<Rightarrow> response) \<Rightarrow> TrailData \<Rightarrow> profile_point list" where
  "resolvedPoints T svc trail =
     List.map_filter
       (\<lambda>(k, pt).
          map_option (\<lambda>e. \<lparr>distance_mi = distanceMi pt, elevation_m = e\<rparr>)
            (getElevation (svc k) (lat pt) (lon pt)))
       (enumerate 0 (samplePoints T (geometry trail) PROFILE_SAMPLES (length_miles trail)))"

text \<open>
  The result record of one request, as the batch loop builds it, and the profile points of
  the results that carry an elevation.
\<close>

definition elevResultOf ::
  "(nat \<Rightarrow> real \<Rightarrow> real \<Rightarrow> nat \<Rightarrow> response) \<Rightarrow> nat \<times> sample \<Rightarrow> elev_result" where
  "elevResultOf svc =
     (\<lambda>(k, pt). \<lparr>idx = k, distMi = distanceMi pt,
                  elevation = getElevation (svc k) (lat pt) (lon pt)\<rparr>)"

definition resolvedOf :: "elev_result list \<Rightarrow> profile_point list" where
  "resolvedOf rs =
     List.map_filter
       (\<lambda>r. map_option (\<lambda>e. \<lparr>distance_mi = distMi r, elevation_m = e\<rparr>) (elevation r)) rs"

text \<open>
  The bearings of the consecutive pairs of a coordinate sequence, as turf gives them.
\<close>

definition bearingsOf :: "turf \<Rightarrow> position list \<Rightarrow> real option list" where
  "bearingsOf T coords = map (\<lambda>(p, q). turf_bearing T p q) (zip coords (tl coords))"

text \<open>
  The eight sectors, 45 degrees wide and half-open, each centred on its direction; the
  sector of north wraps around 0.
\<close>

fun aspectCentre :: "Aspect \<Rightarrow> real" where
  "aspectCentre N = 0"
| "aspectCentre NE = 45"
| "aspectCentre E = 90"
| "aspectCentre SE = 135"
| "aspectCentre S = 180"
| "aspectCentre SW = 225"
| "aspectCentre W = 270"
| "aspectCentre NW = 315"

definition inSector :: "Aspect \<Rightarrow> real \<Rightarrow> bool" where
  "inSector a b =
     (if a = N then (337.5 \<le> b \<and> b < 360) \<or> (0 \<le> b \<and> b < 22.5)
      else aspectCentre a - 22.5 \<le> b \<and> b < aspectCentre a + 22.5)"

text \<open>
  A checkpoint is due after trail \<open>i\<close> when the trail is processed (it carries no
  profile), is eligible for the service, and its position \<open>i + 1\<close> in the dataset is a
  multiple of the interval. \<open>savedIndices\<close> reads off a log of writes the
  \<open>lastProcessedIndex\<close> of each progress record saved.
\<close>

definition checkpointDue :: "nat set \<Rightarrow> TrailData list \<Rightarrow> nat \<Rightarrow> bool" where
  "checkpointDue eligible ts i =
     (\<not> has_profile (ts ! i) \<and> i \<in> eligible \<and> (i + 1) mod CHECKPOINT_INTERVAL = 0)"

fun savedIndices :: "event list \<Rightarrow> int list" where
  "savedIndices [] = []"
| "savedIndices (SaveProgress p # es) = lastProcessedIndex p # savedIndices es"
| "savedIndices (e # es) = savedIndices es"

text \<open>The rank of trail \<open>i\<close> in a run that starts at \<open>startIndex\<close>, counted from 1.\<close>

definition rankSinceStart :: "nat \<Rightarrow> nat \<Rightarrow> nat" where
  "rankSinceStart startIndex i = i + 1 - startIndex"

text \<open>
  The length of a trail in miles as the sampler is to take it. A part of fewer than two
  coordinates, or of no positive length, counts for nothing; the computed length is the
  lengths of the other parts in kilometres, summed and converted to miles; the length of
  the trail is the supplied one when it is present and not zero, and the computed one
  otherwise.
\<close>

definition partLengthKm :: "turf \<Rightarrow> position list \<Rightarrow> real" where
  "partLengthKm T p =
     (if length p < 2 then 0
      else case turf_length T p of None \<Rightarrow> 0 | Some l \<Rightarrow> if 0 < l then l else 0)"



section \<open>Example data\<close>

subsection \<open>Turf and the service\<close>

text \<open>
  A stand-in for turf: every line has unit spacing between its coordinates, every point
  along it is the origin, every bearing is due east. And a turf whose bearing always
  throws.
\<close>

definition exTurf :: turf where
  "exTurf =
     \<lparr>turf_length = (\<lambda>coords. Some (real (length coords) - 1)),
      turf_along = (\<lambda>coords d. Some (0, 0)),
      turf_bearing = (\<lambda>p q. Some 90)\<rparr>"

definition throwingTurf :: turf where
  "throwingTurf = exTurf\<lparr>turf_bearing := (\<lambda>p q. None)\<rparr>"

text \<open>
  A service that is down, one that has no data anywhere, one that fails once and then
  answers, and one that answers 2500.4 m everywhere.
\<close>

definition downService :: "real \<Rightarrow> real \<Rightarrow> nat \<Rightarrow> response" where
  "downService plat plon a = Failed"

definition noDataService :: "real \<Rightarrow> real \<Rightarrow> nat \<Rightarrow> response" where
  "noDataService plat plon a = Json (Some (- 1000000))"

definition flakyService :: "real \<Rightarrow> real \<Rightarrow> nat \<Rightarrow> response" where
  "flakyService plat plon a = (if a = 1 then Failed else Json (Some 1234.6))"

definition steadyService :: "real \<Rightarrow> real \<Rightarrow> nat \<Rightarrow> response" where
  "steadyService plat plon a = Json (Some 2500.4)"

text \<open>The same for every sample of every trail.\<close>

definition allDown :: "nat \<Rightarrow> nat \<Rightarrow> real \<Rightarrow> real \<Rightarrow> nat \<Rightarrow> response" where
  "allDown i k = downService"

definition allSteady :: "nat \<Rightarrow> nat \<Rightarrow> real \<Rightarrow> real \<Rightarrow> nat \<Rightarrow> response" where
  "allSteady i k = steadyService"

subsection \<open>Geometries and trails\<close>

text \<open>A geometry of one part with three coordinates, and one with a part too short to use.\<close>

definition lineGeometry :: "position list list" where
  "lineGeometry = [[[0, 0], [1, 0], [2, 0]]]"


text \<open>
  A trail with no data at all; one that already carries a profile of one point; one with a
  supplied minimum of 1000 m and maximum of 1900 m and no geometry; one from 2400 m to
  3000 m along \<open>lineGeometry\<close>; one along \<open>lineGeometry\<close> with no supplied elevations.
\<close>

definition blankTrail :: TrailData where
  "blankTrail =
     \<lparr>length_miles = None, elevation_min_m = None, elevation_max_m = None, geometry = [],
      elevation_min = None, elevation_max = None, elevation_gain = None,
      dominant_aspect = None, elevation_profile = None\<rparr>"

definition doneTrail :: TrailData where
  "doneTrail = blankTrail\<lparr>elevation_profile := Some [\<lparr>distance_mi = 0, elevation_m = 2000\<rparr>]\<rparr>"

definition hillTrail :: TrailData where
  "hillTrail = blankTrail\<lparr>elevation_min_m := Some 1000, elevation_max_m := Some 1900\<rparr>"

definition ridgeTrail :: TrailData where
  "ridgeTrail =
     blankTrail\<lparr>elevation_min_m := Some 2400, elevation_max_m := Some 3000,
                geometry := lineGeometry\<rparr>"

definition lineTrail :: TrailData where
  "lineTrail = blankTrail\<lparr>geometry := lineGeometry\<rparr>"



subsection \<open>Files and states\<close>

definition freshProgress :: Progress where
  "freshProgress =
     \<lparr>lastProcessedIndex = - 1, processedCount = 0, errorCount = 0, usgsCallCount = 0\<rparr>"

definition noFiles :: files where
  "noFiles = \<lparr>input_file = None, raw_file = None, output_file = None, progress_file = None\<rparr>"

text \<open>The state at the start of a fresh run over the given trails.\<close>

definition startState :: "TrailData list \<Rightarrow> state" where
  "startState ts = \<lparr>trails = ts, progress = freshProgress, fs = noFiles, writes = []\<rparr>"

text \<open>Two trails that both carry a profile, as the input file; a state whose first trail does.\<close>

definition enrichedFiles :: files where
  "enrichedFiles = noFiles\<lparr>input_file := Some [doneTrail, doneTrail]\<rparr>"

definition enrichedState :: state where
  "enrichedState =
     \<lparr>trails = [doneTrail, blankTrail], progress = freshProgress, fs = noFiles, writes = []\<rparr>"

text \<open>
  Twenty-six trails with no data; the start of a fresh run over them; the state of that
  run (against a service that is down) when it is cut off after trail 24.
\<close>

definition manyTrails :: "TrailData list" where
  "manyTrails = replicate 26 blankTrail"

definition manyStart :: state where
  "manyStart =
     \<lparr>trails = manyTrails, progress = freshProgress,
      fs = noFiles\<lparr>input_file := Some manyTrails\<rparr>, writes = []\<rparr>"

definition manyCut :: state where
  "manyCut = mainLoop exTurf allDown (usgsEligible manyTrails) 25 0 manyStart"

text \<open>
  The files of a run over \<open>manyTrails\<close> that was cut off after trail 9, with no output
  file.
\<close>

definition resumedFiles :: files where
  "resumedFiles =
     \<lparr>input_file = Some manyTrails, raw_file = None, output_file = None,
      progress_file = Some \<lparr>lastProcessedIndex = 9, processedCount = 10, errorCount = 0,
                            usgsCallCount = 0\<rparr>\<rparr>"

text \<open>Input files that hold one trail each, and nothing else.\<close>

definition hillFiles :: files where
  "hillFiles = noFiles\<lparr>input_file := Some [hillTrail]\<rparr>"

definition ridgeFiles :: files where
  "ridgeFiles = noFiles\<lparr>input_file := Some [ridgeTrail]\<rparr>"

section \<open>Properties\<close>

subsection \<open>Numbers\<close>

lemma js_round_mono: "x \<le> y \<Longrightarrow> js_round x \<le> js_round y"
  by (simp add: js_round_def floor_mono)

subsection \<open>getElevation\<close>

lemma loop_failed_prefix:
  "a \<le> b \<Longrightarrow> b \<le> MAX_RETRIES \<Longrightarrow> \<forall>k. a \<le> k \<and> k < b \<longrightarrow> fetch k = Failed \<Longrightarrow>
   getElevation_loop fetch a ds = getElevation_loop fetch b (ds @ map (\<lambda>k. 1000 * k) [a..<b])"
proof (induction "b - a" arbitrary: a ds)
  case 0
  then show ?case by simp
next
  case (Suc n)
  then have lt: "a < b" and f: "fetch a = Failed" by auto
  have "getElevation_loop fetch a ds = getElevation_loop fetch (a + 1) (ds @ [1000 * a])"
    using lt Suc.prems(2) f by (subst getElevation_loop.simps) simp
  also have "\<dots> = getElevation_loop fetch b ((ds @ [1000 * a]) @ map (\<lambda>k. 1000 * k) [a + 1..<b])"
    using Suc by (intro Suc.hyps(1)) auto
  also have "(ds @ [1000 * a]) @ map (\<lambda>k. 1000 * k) [a + 1..<b] = ds @ map (\<lambda>k. 1000 * k) [a..<b]"
    using lt by (simp add: upt_conv_Cons)
  finally show ?case .
qed

lemma loop_answer:
  "1 \<le> a \<Longrightarrow> a \<le> MAX_RETRIES \<Longrightarrow> fetch a = Json v \<Longrightarrow>
   getElevation_loop fetch a ds =
     ((case v of Some x \<Rightarrow> if x \<noteq> - 1000000 then Some (js_round x) else None | None \<Rightarrow> None), a, ds)"
  by (subst getElevation_loop.simps) (simp split: option.splits)

lemma loop_exhausted:
  "fetch MAX_RETRIES = Failed \<Longrightarrow>
   getElevation_loop fetch MAX_RETRIES ds = (None, MAX_RETRIES, ds)"
  by (subst getElevation_loop.simps, subst getElevation_loop.simps) simp

text \<open>
  Claim C6. \<open>getElevation_trace\<close> gives the result of \<open>getElevation\<close>, the number of
  requests it made and the delays it waited. When the attempts before the \<open>a\<close>-th fail
  and the \<open>a\<close>-th is answered, the call ends there: \<open>a\<close> requests, the delays
  \<open>1000 * 1, ..., 1000 * (a - 1)\<close> between them, and the result is unknown when the
  answer is the no-data sentinel \<open>-1000000\<close> (or has no value), the rounded value
  otherwise. In particular a sentinel in the first response returns unknown after one
  request and no delay. When every attempt fails, exactly \<open>MAX_RETRIES\<close> requests are
  made, with the delays 1000 and 2000 between them, and the result is unknown: the value
  \<open>None\<close>, not an error.
\<close>

theorem getElevation_retry:
  "(1 \<le> a \<and> a \<le> MAX_RETRIES \<and> (\<forall>k. 1 \<le> k \<and> k < a \<longrightarrow> svc plat plon k = Failed) \<and>
      svc plat plon a = Json v \<longrightarrow>
      getElevation_trace svc plat plon =
        ((case v of Some x \<Rightarrow> if x \<noteq> - 1000000 then Some (js_round x) else None | None \<Rightarrow> None),
         a, map (\<lambda>k. 1000 * k) [1..<a])) \<and>
   (svc plat plon 1 = Json (Some (- 1000000)) \<longrightarrow>
      getElevation_trace svc plat plon = (None, 1, [])) \<and>
   ((\<forall>k. 1 \<le> k \<and> k \<le> MAX_RETRIES \<longrightarrow> svc plat plon k = Failed) \<longrightarrow>
      getElevation_trace svc plat plon = (None, MAX_RETRIES, [1000 * 1, 1000 * 2]) \<and>
      getElevation svc plat plon = None)"
proof (intro conjI impI)
  assume h: "1 \<le> a \<and> a \<le> MAX_RETRIES \<and> (\<forall>k. 1 \<le> k \<and> k < a \<longrightarrow> svc plat plon k = Failed) \<and>
      svc plat plon a = Json v"
  then have "getElevation_loop (svc plat plon) 1 [] =
      getElevation_loop (svc plat plon) a ([] @ map (\<lambda>k. 1000 * k) [1..<a])"
    by (intro loop_failed_prefix) auto
  moreover have "getElevation_loop (svc plat plon) a (map (\<lambda>k. 1000 * k) [1..<a]) =
        ((case v of Some x \<Rightarrow> if x \<noteq> - 1000000 then Some (js_round x) else None | None \<Rightarrow> None),
         a, map (\<lambda>k. 1000 * k) [1..<a])"
    using h by (intro loop_answer) auto
  ultimately show "getElevation_trace svc plat plon =
        ((case v of Some x \<Rightarrow> if x \<noteq> - 1000000 then Some (js_round x) else None | None \<Rightarrow> None),
         a, map (\<lambda>k. 1000 * k) [1..<a])"
    by (simp add: getElevation_trace_def)
next
  assume "svc plat plon 1 = Json (Some (- 1000000))"
  then show "getElevation_trace svc plat plon = (None, 1, [])"
    by (simp add: getElevation_trace_def loop_answer MAX_RETRIES_def)
next
  assume h: "\<forall>k. 1 \<le> k \<and> k \<le> MAX_RETRIES \<longrightarrow> svc plat plon k = Failed"
  then have "getElevation_loop (svc plat plon) 1 [] =
      getElevation_loop (svc plat plon) MAX_RETRIES ([] @ map (\<lambda>k. 1000 * k) [1..<MAX_RETRIES])"
    by (intro loop_failed_prefix) (auto simp: MAX_RETRIES_def)
  moreover have "svc plat plon MAX_RETRIES = Failed" using h by (simp add: MAX_RETRIES_def)
  moreover have "[1..<MAX_RETRIES] = [1, 2]" by (simp add: MAX_RETRIES_def upt_rec)
  ultimately show t: "getElevation_trace svc plat plon = (None, MAX_RETRIES, [1000 * 1, 1000 * 2])"
    by (simp add: getElevation_trace_def loop_exhausted)
  show "getElevation svc plat plon = None"
    by (simp add: getElevation_def t)
qed

text \<open>
  The three cases on examples: a service with no data, a service that is down, and a
  service that fails once and then answers 1234.6.
\<close>

theorem getElevation_retry_witness:
  "getElevation_trace noDataService 0 0 = (None, 1, []) \<and>
   getElevation_trace downService 0 0 = (None, 3, [1000, 2000]) \<and>
   getElevation_trace flakyService 0 0 = (Some 1235, 2, [1000])"
proof -
  have a: "getElevation_trace noDataService 0 0 = (None, 1, [])"
    using getElevation_retry [of 1 noDataService 0 0 "Some (- 1000000)"]
    by (simp add: noDataService_def)
  have b: "getElevation_trace downService 0 0 = (None, 3, [1000, 2000])"
    using getElevation_retry [of 1 downService 0 0 None]
    by (simp add: downService_def MAX_RETRIES_def)
  have c: "getElevation_trace flakyService 0 0 = (Some 1235, 2, [1000])"
    using getElevation_retry [of 2 flakyService 0 0 "Some 1234.6"]
    by (simp add: flakyService_def MAX_RETRIES_def js_round_def upt_rec)
  show ?thesis using a b c by simp
qed

subsection \<open>interpolateProfile\<close>

lemma upt_10: "[0..<10] = [0, 1, 2, 3, 4, 5, 6, 7, 8, 9::nat]"
  by (simp add: upt_rec)

lemma interpolate_elevations:
  "map elevation_m (interpolateProfile trail 10) =
     (let mn = minElevOf trail; d = maxElevOf trail - minElevOf trail in
      [js_round mn, js_round (mn + 2 / 9 * d), js_round (mn + 4 / 9 * d),
       js_round (mn + 6 / 9 * d), js_round (mn + 8 / 9 * d), js_round (mn + 8 / 9 * d),
       js_round (mn + 6 / 9 * d), js_round (mn + 4 / 9 * d), js_round (mn + 2 / 9 * d),
       js_round mn])"
  by (simp add: interpolateProfile_def interpolatePoint_def upt_10 Let_def minElevOf_def maxElevOf_def)

lemma interpolate_nth:
  assumes "i < 10"
  shows "elevation_m (interpolateProfile trail 10 ! i) =
     js_round (minElevOf trail +
       (if i \<le> 4 then 2 * real i else 2 * (9 - real i)) / 9 * (maxElevOf trail - minElevOf trail))"
proof -
  have c: "(real i / 9 \<le> 1 / 2) = (i \<le> 4)" by (simp add: field_simps) linarith
  have t: "(if real i / 9 \<le> 1 / 2 then real i / 9 * 2 else 2 - real i / 9 * 2) =
      (if i \<le> 4 then 2 * real i else 2 * (9 - real i)) / 9"
    unfolding c by (simp add: field_simps)
  have "interpolateProfile trail 10 ! i =
      interpolatePoint (minElevOf trail) (maxElevOf trail) (nullish (length_miles trail) 1) 10 i"
    using assms by (simp add: interpolateProfile_def Let_def)
  then have "elevation_m (interpolateProfile trail 10 ! i) =
      js_round (minElevOf trail +
        (if real i / 9 \<le> 1 / 2 then real i / 9 * 2 else 2 - real i / 9 * 2) *
        (maxElevOf trail - minElevOf trail))"
    by (simp add: interpolatePoint_def Let_def)
  then show ?thesis unfolding t .
qed

text \<open>
  The shape of the default profile. With the minimum at most the maximum, the profile has
  10 points, sampled at the fractions \<open>i / 9\<close> of the triangle that rises from the
  minimum at the start towards the maximum at the middle of the trail and descends
  symmetrically: the elevation at index \<open>i \<le> 4\<close> is the rounded
  \<open>min + (2 i / 9) (max - min)\<close>, and index \<open>9 - i\<close> has the elevation of index \<open>i\<close>.
  The profile starts and ends at the rounded minimum, is non-decreasing up to index 4 and
  non-increasing from index 5 on, and no point is above the rounded
  \<open>min + 8/9 (max - min)\<close>, the value at the indices 4 and 5 next to the middle. With
  the minimum equal to the maximum the profile is constant.
\<close>

lemma interpolateProfile_shape:
  assumes "minElevOf trail \<le> maxElevOf trail"
  shows "length (interpolateProfile trail 10) = 10 \<and>
    (\<forall>i. i \<le> 4 \<longrightarrow> elevation_m (interpolateProfile trail 10 ! i) =
        js_round (minElevOf trail + 2 * real i / 9 * (maxElevOf trail - minElevOf trail))) \<and>
    (\<forall>i. i \<le> 9 \<longrightarrow> elevation_m (interpolateProfile trail 10 ! (9 - i)) =
        elevation_m (interpolateProfile trail 10 ! i)) \<and>
    (\<forall>i j. i \<le> j \<and> j \<le> 4 \<longrightarrow> elevation_m (interpolateProfile trail 10 ! i) \<le>
        elevation_m (interpolateProfile trail 10 ! j)) \<and>
    (\<forall>i j. 5 \<le> i \<and> i \<le> j \<and> j \<le> 9 \<longrightarrow> elevation_m (interpolateProfile trail 10 ! j) \<le>
        elevation_m (interpolateProfile trail 10 ! i)) \<and>
    (\<forall>i. i \<le> 9 \<longrightarrow> elevation_m (interpolateProfile trail 10 ! i) \<le>
        js_round (minElevOf trail + 8 / 9 * (maxElevOf trail - minElevOf trail))) \<and>
    elevation_m (interpolateProfile trail 10 ! 0) = js_round (minElevOf trail) \<and>
    elevation_m (interpolateProfile trail 10 ! 9) = js_round (minElevOf trail) \<and>
    (minElevOf trail = maxElevOf trail \<longrightarrow>
      (\<forall>i. i \<le> 9 \<longrightarrow> elevation_m (interpolateProfile trail 10 ! i) = js_round (minElevOf trail)))"
proof -
  define d where "d = maxElevOf trail - minElevOf trail"
  have d: "0 \<le> d" using assms by (simp add: d_def)
  have mono: "minElevOf trail + a / 9 * d \<le> minElevOf trail + b / 9 * d" if "a \<le> b" for a b :: real
    using that d by (simp add: mult_right_mono divide_right_mono)
  have rise: "elevation_m (interpolateProfile trail 10 ! i) = js_round (minElevOf trail + 2 * real i / 9 * d)"
    if "i \<le> 4" for i using that by (simp add: interpolate_nth d_def)
  have fall: "elevation_m (interpolateProfile trail 10 ! i) = js_round (minElevOf trail + 2 * (9 - real i) / 9 * d)"
    if "5 \<le> i" "i \<le> 9" for i using that by (simp add: interpolate_nth d_def)
  have sym: "elevation_m (interpolateProfile trail 10 ! (9 - i)) = elevation_m (interpolateProfile trail 10 ! i)"
    if "i \<le> 9" for i
  proof (cases "i \<le> 4")
    case True
    then have "5 \<le> 9 - i" "9 - i \<le> 9" by auto
    then show ?thesis using True by (simp add: fall rise of_nat_diff)
  next
    case False
    then have "9 - i \<le> 4" "5 \<le> i" using that by auto
    then show ?thesis using that by (simp add: fall rise of_nat_diff)
  qed
  have up: "elevation_m (interpolateProfile trail 10 ! i) \<le> elevation_m (interpolateProfile trail 10 ! j)"
    if "i \<le> j" "j \<le> 4" for i j
  proof -
    have "i \<le> 4" using that by simp
    then show ?thesis unfolding rise[OF \<open>i \<le> 4\<close>] rise[OF \<open>j \<le> 4\<close>]
      using that by (intro js_round_mono mono) simp
  qed
  have down: "elevation_m (interpolateProfile trail 10 ! j) \<le> elevation_m (interpolateProfile trail 10 ! i)"
    if "5 \<le> i" "i \<le> j" "j \<le> 9" for i j
  proof -
    have ij: "i \<le> 9" "5 \<le> j" using that by simp_all
    show ?thesis unfolding fall[OF \<open>5 \<le> i\<close> ij(1)] fall[OF ij(2) \<open>j \<le> 9\<close>]
      using that by (intro js_round_mono mono) simp
  qed
  have peak: "elevation_m (interpolateProfile trail 10 ! i) \<le> js_round (minElevOf trail + 8 / 9 * d)"
    if "i \<le> 9" for i
  proof (cases "i \<le> 4")
    case True
    then have "2 * real i \<le> 8" by simp
    then show ?thesis unfolding rise[OF True] by (intro js_round_mono mono)
  next
    case False
    then have "2 * (9 - real i) \<le> 8" "5 \<le> i" by auto
    then show ?thesis unfolding fall[OF \<open>5 \<le> i\<close> that] by (intro js_round_mono mono)
  qed
  have const: "elevation_m (interpolateProfile trail 10 ! i) = js_round (minElevOf trail)"
    if "i \<le> 9" "minElevOf trail = maxElevOf trail" for i
    using that by (simp add: interpolate_nth)
  have len: "length (interpolateProfile trail 10) = 10"
    by (simp add: interpolateProfile_def)
  have first: "elevation_m (interpolateProfile trail 10 ! 0) = js_round (minElevOf trail)"
    using rise[of 0] by simp
  have last: "elevation_m (interpolateProfile trail 10 ! 9) = js_round (minElevOf trail)"
    using fall[of 9] by simp
  show ?thesis
    unfolding d_def[symmetric]
    by (intro conjI allI impI; (elim conjE)?;
        (rule len rise sym up down peak first last const; assumption))
qed

text \<open>
  The shape on the trail from 1000 m to 1900 m.
\<close>

lemma interpolateProfile_shape_example:
  "minElevOf hillTrail \<le> maxElevOf hillTrail \<and>
   length (interpolateProfile hillTrail 10) = 10 \<and>
   elevation_m (interpolateProfile hillTrail 10 ! 4) = 1800 \<and>
   elevation_m (interpolateProfile hillTrail 10 ! 9) = 1000"
proof -
  have h: "minElevOf hillTrail \<le> maxElevOf hillTrail"
    by (simp add: minElevOf_def maxElevOf_def hillTrail_def blankTrail_def nullish_def)
  have v: "minElevOf hillTrail = 1000" "maxElevOf hillTrail = 1900"
    by (simp_all add: minElevOf_def maxElevOf_def hillTrail_def blankTrail_def nullish_def)
  from interpolateProfile_shape [OF h] have
    "length (interpolateProfile hillTrail 10) = 10"
    "elevation_m (interpolateProfile hillTrail 10 ! 4) =
        js_round (minElevOf hillTrail + 2 * real 4 / 9 * (maxElevOf hillTrail - minElevOf hillTrail))"
    "elevation_m (interpolateProfile hillTrail 10 ! 9) = js_round (minElevOf hillTrail)"
    by blast+
  then show ?thesis using h by (simp add: v js_round_def)
qed

text \<open>
  Claim C7. The default profile is to rise from the minimum to the maximum by the middle
  of the trail and to descend back to the minimum, as the comment on line 182 says too.
  The code on the trail from 1000 m to 1900 m: no sample of the 10 falls on the middle
  (the fraction 1/2), and the highest point of the profile is 1800 m, not the maximum.
\<close>

theorem interpolateProfile_misses_maximum:
  "maxElevOf hillTrail = 1900 \<and>
   map elevation_m (interpolateProfile hillTrail 10) =
     [1000, 1200, 1400, 1600, 1800, 1800, 1600, 1400, 1200, 1000] \<and>
   1900 \<notin> set (map elevation_m (interpolateProfile hillTrail 10))"
  by (simp add: interpolate_elevations Let_def minElevOf_def maxElevOf_def hillTrail_def
      blankTrail_def nullish_def js_round_def)

subsection \<open>Trails that already carry a profile\<close>

lemma iteration_skip:
  "has_profile (trails st ! i) \<Longrightarrow> iteration T svc eligible i st = st"
  by (simp add: iteration_def)

lemma mainLoop_all_profiled:
  "\<forall>t \<in> set (trails st). has_profile t \<Longrightarrow> total' \<le> length (trails st) \<Longrightarrow>
   mainLoop T svc eligible total' i st = st"
proof (induction T svc eligible total' i st rule: mainLoop.induct)
  case (1 T svc eligible total' i st)
  show ?case
  proof (cases "i < total'")
    case True
    then have "has_profile (trails st ! i)" using 1(2,3) by simp
    then have "iteration T svc eligible i st = st" by (rule iteration_skip)
    then show ?thesis using 1 True by (subst mainLoop.simps) simp
  next
    case False
    then show ?thesis by (subst mainLoop.simps) simp
  qed
qed

text \<open>
  Claim C10. An iteration on a trail that already carries a non-empty profile returns the
  state it was given: the progress record keeps its \<open>lastProcessedIndex\<close> and its three
  counters, and neither file is written (no checkpoint).
\<close>

theorem skipped_trail_frame:
  assumes "has_profile (trails st ! i)"
  shows "iteration T svc eligible i st = st \<and>
    lastProcessedIndex (progress (iteration T svc eligible i st)) = lastProcessedIndex (progress st) \<and>
    processedCount (progress (iteration T svc eligible i st)) = processedCount (progress st) \<and>
    errorCount (progress (iteration T svc eligible i st)) = errorCount (progress st) \<and>
    usgsCallCount (progress (iteration T svc eligible i st)) = usgsCallCount (progress st) \<and>
    writes (iteration T svc eligible i st) = writes st \<and>
    fs (iteration T svc eligible i st) = fs st"
  using assms by (simp add: iteration_skip)

theorem skipped_trail_frame_witness:
  "has_profile (trails enrichedState ! 0) \<and>
   iteration exTurf allDown {0, 1} 0 enrichedState = enrichedState \<and>
   lastProcessedIndex (progress (iteration exTurf allDown {0, 1} 0 enrichedState)) = - 1"
proof -
  have h: "has_profile (trails enrichedState ! 0)"
    by (simp add: enrichedState_def doneTrail_def blankTrail_def has_profile_def)
  show ?thesis
    using h skipped_trail_frame [OF h, of exTurf allDown "{0, 1}"]
    by (simp add: enrichedState_def freshProgress_def)
qed

text \<open>
  Claim C8. A run whose dataset (the input, or the output file on a resumed run) has a
  non-empty profile on every trail returns with the trails as they were loaded and the
  progress record as it was loaded (no trail processed, no service call counted); its only
  writes are the final save of the unchanged trails and, when a progress file existed,
  its removal. The start index must not be negative, or the run fails with a type error.
\<close>

theorem rerun_on_enriched_dataset:
  assumes "loadInput f = Some rawTrails"
    and "- 1 \<le> lastProcessedIndex (loadProgress f)"
    and "ts = resumeTrails f (lastProcessedIndex (loadProgress f) + 1) rawTrails"
    and "\<forall>t \<in> set ts. has_profile t"
  shows "\<exists>st'. enrichTrailsWithElevation T svc f = Inr st' \<and>
    trails st' = ts \<and> progress st' = loadProgress f \<and>
    output_file (fs st') = Some ts \<and> progress_file (fs st') = None \<and>
    writes st' = SaveTrails ts # (if progress_file f \<noteq> None then [DeleteProgress] else [])"
proof -
  define st0 where "st0 = \<lparr>trails = ts, progress = loadProgress f, fs = f, writes = []\<rparr>"
  have "mainLoop T svc (usgsEligible ts) (length ts) (nat (lastProcessedIndex (loadProgress f) + 1)) st0 = st0"
    using assms(4) by (intro mainLoop_all_profiled) (simp_all add: st0_def)
  then show ?thesis
    using assms(1,2,3)
    by (simp add: enrichTrailsWithElevation_def Let_def st0_def saveTrails_def unlinkProgress_def)
qed

theorem rerun_on_enriched_dataset_witness:
  "loadInput enrichedFiles = Some [doneTrail, doneTrail] \<and>
   has_profile doneTrail \<and>
   (\<exists>st'. enrichTrailsWithElevation exTurf allDown enrichedFiles = Inr st' \<and>
      trails st' = [doneTrail, doneTrail] \<and> progress st' = freshProgress \<and>
      writes st' = [SaveTrails [doneTrail, doneTrail]])"
proof -
  have a: "loadInput enrichedFiles = Some [doneTrail, doneTrail]"
    by (simp add: loadInput_def enrichedFiles_def noFiles_def)
  have p: "loadProgress enrichedFiles = freshProgress"
    by (simp add: loadProgress_def enrichedFiles_def noFiles_def freshProgress_def)
  have b: "- 1 \<le> lastProcessedIndex (loadProgress enrichedFiles)"
    by (simp add: p freshProgress_def)
  have c: "[doneTrail, doneTrail] =
      resumeTrails enrichedFiles (lastProcessedIndex (loadProgress enrichedFiles) + 1) [doneTrail, doneTrail]"
    by (simp add: p freshProgress_def resumeTrails_def)
  have h: "has_profile doneTrail"
    by (simp add: doneTrail_def blankTrail_def has_profile_def)
  then have d: "\<forall>t \<in> set [doneTrail, doneTrail]. has_profile t" by simp
  have q: "progress_file enrichedFiles = None"
    by (simp add: enrichedFiles_def noFiles_def)
  show ?thesis
    using a h rerun_on_enriched_dataset [OF a b c d, of exTurf allDown]
    by (auto simp: p q)
qed

subsection \<open>samplePoints\<close>


lemma buildSegments_ok:
  assumes "\<forall>p \<in> set cs. 2 \<le> length p \<longrightarrow> turf_length T p \<noteq> None"
  shows "\<exists>segs. buildSegments T cs acc = Some (acc @ segs) \<and>
      (\<forall>(p, l) \<in> set segs. p \<in> set cs \<and> 2 \<le> length p \<and> 0 < l \<and> turf_length T p = Some l) \<and>
      (\<forall>p \<in> set cs. \<forall>l. 2 \<le> length p \<and> turf_length T p = Some l \<and> 0 < l \<longrightarrow> (p, l) \<in> set segs) \<and>
      sum_list (map snd segs) = sum_list (map (partLengthKm T) cs)"
  using assms
proof (induction cs arbitrary: acc)
  case Nil
  then show ?case by simp
next
  case (Cons c cs)
  show ?case
  proof (cases "length c < 2")
    case True
    from Cons.IH [of acc] Cons.prems obtain segs where
      "buildSegments T cs acc = Some (acc @ segs)"
      "\<forall>(p, l) \<in> set segs. p \<in> set cs \<and> 2 \<le> length p \<and> 0 < l \<and> turf_length T p = Some l"
      "\<forall>p \<in> set cs. \<forall>l. 2 \<le> length p \<and> turf_length T p = Some l \<and> 0 < l \<longrightarrow> (p, l) \<in> set segs"
      "sum_list (map snd segs) = sum_list (map (partLengthKm T) cs)"
      by auto
    moreover have "partLengthKm T c = 0" using True by (simp add: partLengthKm_def)
    ultimately show ?thesis using True by (intro exI [of _ segs]) auto
  next
    case False
    then obtain lengthKm where l: "turf_length T c = Some lengthKm"
      using Cons.prems by auto
    have pc: "partLengthKm T c = (if 0 < lengthKm then lengthKm else 0)"
      using False l by (simp add: partLengthKm_def)
    define acc' where "acc' = (if 0 < lengthKm then acc @ [(c, lengthKm)] else acc)"
    from Cons.IH [of acc'] Cons.prems obtain segs where s:
      "buildSegments T cs acc' = Some (acc' @ segs)"
      "\<forall>(p, l) \<in> set segs. p \<in> set cs \<and> 2 \<le> length p \<and> 0 < l \<and> turf_length T p = Some l"
      "\<forall>p \<in> set cs. \<forall>l. 2 \<le> length p \<and> turf_length T p = Some l \<and> 0 < l \<longrightarrow> (p, l) \<in> set segs"
      "sum_list (map snd segs) = sum_list (map (partLengthKm T) cs)"
      by auto
    show ?thesis
    proof (cases "0 < lengthKm")
      case True
      then show ?thesis using False l s pc
        by (intro exI [of _ "(c, lengthKm) # segs"]) (auto simp: acc'_def)
    next
      case neg: False
      then show ?thesis using False l s pc
        by (intro exI [of _ segs]) (auto simp: acc'_def)
    qed
  qed
qed

lemma findSegment_ok:
  assumes "segs \<noteq> []"
    and "\<forall>(line, l) \<in> set segs. 0 < l \<and> (\<forall>d. 0 \<le> d \<and> d \<le> l \<longrightarrow> turf_along T line d \<noteq> None)"
  shows "\<exists>pt. findSegment T targetKm accumulated segs = Some (Some pt)"
  using assms
proof (induction segs arbitrary: accumulated)
  case Nil
  then show ?case by simp
next
  case (Cons seg rest)
  obtain line lengthKm where seg: "seg = (line, lengthKm)" by (cases seg)
  show ?case
  proof (cases "accumulated + lengthKm \<ge> targetKm \<or> rest = []")
    case True
    have pos: "0 < lengthKm" using Cons.prems(2) seg by simp
    then have "0 \<le> max 0 (min (targetKm - accumulated) lengthKm) \<and>
        max 0 (min (targetKm - accumulated) lengthKm) \<le> lengthKm"
      by simp
    then obtain pt where
      "turf_along T line (max 0 (min (targetKm - accumulated) lengthKm)) = Some pt"
      using Cons.prems(2) seg by fastforce
    then show ?thesis using True seg by (auto simp: Let_def)
  next
    case False
    then show ?thesis using Cons seg by auto
  qed
qed

lemma sampleLoop_ok:
  assumes "\<forall>targetKm. \<exists>pt. findSegment T targetKm 0 segs = Some (Some pt)"
  shows "\<exists>out. sampleLoop T segs km mi n i samples = Some (samples @ out) \<and>
     map distanceMi out =
       map (\<lambda>j. js_round ((if n = 1 then 0 else real j / real (n - 1)) * mi * 100) / 100) [i..<n]"
  using assms
proof (induction T segs km mi n i samples rule: sampleLoop.induct)
  case (1 T segments totalLengthKm totalLengthMi numSamples i samples)
  show ?case
  proof (cases "i < numSamples")
    case False
    then show ?thesis by (subst sampleLoop.simps) simp
  next
    case True
    define fraction where "fraction = (if numSamples = 1 then 0 else real i / real (numSamples - 1))"
    obtain x y where pt: "findSegment T (fraction * totalLengthKm) 0 segments = Some (Some (x, y))"
      using "1.prems" by (metis surj_pair)
    define s where "s = \<lparr>lat = y, lon = x, distanceMi = js_round (fraction * totalLengthMi * 100) / 100\<rparr>"
    have step: "sampleLoop T segments totalLengthKm totalLengthMi numSamples i samples =
        sampleLoop T segments totalLengthKm totalLengthMi numSamples (i + 1) (samples @ [s])"
      using True pt by (subst sampleLoop.simps) (simp add: Let_def fraction_def s_def)
    from "1.IH"(2) [OF True fraction_def refl refl pt refl refl "1.prems"]
    obtain out where out:
      "sampleLoop T segments totalLengthKm totalLengthMi numSamples (i + 1) (samples @ [s]) =
         Some ((samples @ [s]) @ out)"
      "map distanceMi out =
         map (\<lambda>j. js_round ((if numSamples = 1 then 0 else real j / real (numSamples - 1)) *
            totalLengthMi * 100) / 100) [i + 1..<numSamples]"
      unfolding s_def by blast
    show ?thesis
      using step out True
      by (intro exI [of _ "s # out"]) (simp add: upt_conv_Cons s_def fraction_def)
  qed
qed



lemma samplePoints_ok:
  assumes nd: "\<exists>p \<in> set coordinates. 2 \<le> length p \<and> (\<exists>l. turf_length T p = Some l \<and> 0 < l)"
    and ok: "\<forall>p \<in> set coordinates. 2 \<le> length p \<longrightarrow>
        turf_length T p \<noteq> None \<and>
        (\<forall>l d. turf_length T p = Some l \<and> 0 \<le> d \<and> d \<le> l \<longrightarrow> turf_along T p d \<noteq> None)"
  shows "\<exists>segments. buildSegments T coordinates [] = Some segments \<and> segments \<noteq> [] \<and>
      (\<forall>(p, l) \<in> set segments. 0 < l) \<and>
      sum_list (map snd segments) = sum_list (map (partLengthKm T) coordinates) \<and>
      length (samplePoints T coordinates numSamples trailLengthMi) = numSamples \<and>
      map distanceMi (samplePoints T coordinates numSamples trailLengthMi) =
        map (\<lambda>j. js_round ((if numSamples = 1 then 0 else real j / real (numSamples - 1)) *
              totalLengthMiOf segments trailLengthMi * 100) / 100) [0..<numSamples]"
proof -
  from buildSegments_ok [of coordinates T "[]"] ok obtain segs where s:
    "buildSegments T coordinates [] = Some segs"
    "\<forall>(p, l) \<in> set segs. p \<in> set coordinates \<and> 2 \<le> length p \<and> 0 < l \<and> turf_length T p = Some l"
    "\<forall>p \<in> set coordinates. \<forall>l. 2 \<le> length p \<and> turf_length T p = Some l \<and> 0 < l \<longrightarrow> (p, l) \<in> set segs"
    "sum_list (map snd segs) = sum_list (map (partLengthKm T) coordinates)"
    by auto
  have ne: "segs \<noteq> []" using nd s(3) by fastforce
  have al: "\<forall>(line, l) \<in> set segs. 0 < l \<and>
      (\<forall>d. 0 \<le> d \<and> d \<le> l \<longrightarrow> turf_along T line d \<noteq> None)"
    using s(2) ok by fastforce
  have fs: "\<forall>targetKm. \<exists>pt. findSegment T targetKm 0 segs = Some (Some pt)"
    using findSegment_ok [OF ne al] by simp
  from sampleLoop_ok [OF fs, of "foldl (\<lambda>sum s. sum + snd s) 0 segs"
      "totalLengthMiOf segs trailLengthMi" numSamples 0 "[]"]
  obtain out where out:
    "sampleLoop T segs (foldl (\<lambda>sum s. sum + snd s) 0 segs)
        (totalLengthMiOf segs trailLengthMi) numSamples 0 [] = Some out"
    "map distanceMi out =
       map (\<lambda>j. js_round ((if numSamples = 1 then 0 else real j / real (numSamples - 1)) *
              totalLengthMiOf segs trailLengthMi * 100) / 100) [0..<numSamples]"
    by auto
  have sp: "samplePoints T coordinates numSamples trailLengthMi = out"
    using s(1) ne out(1) by (simp add: samplePoints_def samplePoints_try_def Let_def)
  have "length out = numSamples"
    using arg_cong [OF out(2), of length] by simp
  then show ?thesis using s ne out(2) sp by (intro exI [of _ segs]) auto
qed




subsection \<open>The profile of an eligible trail\<close>

lemma positiveDeltaSum_nonneg: "0 \<le> positiveDeltaSum es"
  by (induction es rule: positiveDeltaSum.induct) auto

lemma positiveDeltaSum_Ints: "set es \<subseteq> \<int> \<Longrightarrow> positiveDeltaSum es \<in> \<int>"
  by (induction es rule: positiveDeltaSum.induct) auto

lemma positiveDeltaSum_sum:
  "positiveDeltaSum es = (\<Sum>i<length es - 1. max 0 (es ! Suc i - es ! i))"
proof (induction es rule: positiveDeltaSum.induct)
  case (1 a b rest)
  have "(\<Sum>i<Suc (length rest). max 0 ((a # b # rest) ! Suc i - (a # b # rest) ! i)) =
        max 0 (b - a) + (\<Sum>i<length rest. max 0 ((b # rest) ! Suc i - (b # rest) ! i))"
    by (subst sum.lessThan_Suc_shift) simp
  then show ?case using 1 by (simp add: max_def)
qed simp_all

lemma js_round_Ints: "x \<in> \<int> \<Longrightarrow> js_round x = x"
  by (auto simp: js_round_def elim!: Ints_cases)

lemma js_round_in_Ints: "js_round x \<in> \<int>"
  by (simp add: js_round_def)

lemma getElevation_loop_Ints:
  "fst (getElevation_loop fetch a ds) = Some e \<Longrightarrow> e \<in> \<int>"
proof (induction fetch a ds rule: getElevation_loop.induct)
  case (1 fetch attempt delays)
  show ?case
  proof (cases "attempt \<le> MAX_RETRIES")
    case False
    then show ?thesis using "1.prems" by (subst (asm) getElevation_loop.simps) simp
  next
    case True
    show ?thesis
    proof (cases "fetch attempt")
      case Failed
      then have "fst (getElevation_loop fetch (attempt + 1)
          (if attempt < MAX_RETRIES then delays @ [1000 * attempt] else delays)) = Some e"
        using "1.prems" True by (subst (asm) getElevation_loop.simps) simp
      then show ?thesis using "1.IH" [OF True Failed] by simp
    next
      case (Json v)
      then show ?thesis using "1.prems" True
        by (subst (asm) getElevation_loop.simps)
          (auto simp: js_round_in_Ints split: if_splits option.splits)
    qed
  qed
qed

lemma getElevation_Ints: "getElevation svc plat plon = Some e \<Longrightarrow> e \<in> \<int>"
  by (auto simp: getElevation_def getElevation_trace_def dest: getElevation_loop_Ints)

lemma enumerate_shift:
  "map (\<lambda>(bIdx, pt). f (b + bIdx) pt) (enumerate 0 xs) = map (\<lambda>(k, pt). f k pt) (enumerate b xs)"
  by (induction xs arbitrary: b rule: rev_induct) (auto simp: enumerate_append_eq)

lemma fetchBatches_eq:
  "fetchBatches svc points b (acc, pr) =
     (acc @ map (elevResultOf svc) (enumerate b (drop b points)),
      pr\<lparr>usgsCallCount := usgsCallCount pr + int (length points - b)\<rparr>)"
proof (induction svc points b "(acc, pr)" arbitrary: acc pr rule: fetchBatches.induct)
  case (1 svc points b elevResults progress)
  show ?case
  proof (cases "b < length points")
    case False
    then show ?thesis by (subst fetchBatches.simps) simp
  next
    case True
    define batch where "batch = take USGS_CONCURRENCY (drop b points)"
    have split: "drop b points = batch @ drop (b + USGS_CONCURRENCY) points"
      unfolding batch_def by (metis append_take_drop_id drop_drop add.commute)
    have len: "length batch = min USGS_CONCURRENCY (length points - b)"
      by (simp add: batch_def)
    have rest: "enumerate (b + length batch) (drop (b + USGS_CONCURRENCY) points) =
        enumerate (b + USGS_CONCURRENCY) (drop (b + USGS_CONCURRENCY) points)"
      by (cases "USGS_CONCURRENCY \<le> length points - b") (simp_all add: len min_def)
    have res: "map (\<lambda>(bIdx, pt). \<lparr>idx = b + bIdx, distMi = distanceMi pt,
                  elevation = getElevation (svc (b + bIdx)) (lat pt) (lon pt)\<rparr>) (enumerate 0 batch) =
        map (elevResultOf svc) (enumerate b batch)"
      unfolding elevResultOf_def
      by (rule enumerate_shift [of "\<lambda>k pt. \<lparr>idx = k, distMi = distanceMi pt,
                  elevation = getElevation (svc k) (lat pt) (lon pt)\<rparr>"])
    have cnt: "int (length batch) + int (length points - (b + USGS_CONCURRENCY)) = int (length points - b)"
      using True by (simp add: len min_def)
    have step: "fetchBatches svc points b (elevResults, progress) =
        fetchBatches svc points (b + USGS_CONCURRENCY)
          (elevResults @ map (\<lambda>(bIdx, pt). \<lparr>idx = b + bIdx, distMi = distanceMi pt,
                  elevation = getElevation (svc (b + bIdx)) (lat pt) (lon pt)\<rparr>) (enumerate 0 batch),
           progress\<lparr>usgsCallCount := usgsCallCount progress + int (length batch)\<rparr>)"
      using True by (subst fetchBatches.simps) (simp add: Let_def batch_def)
    note step
    also have "fetchBatches svc points (b + USGS_CONCURRENCY)
          (elevResults @ map (\<lambda>(bIdx, pt). \<lparr>idx = b + bIdx, distMi = distanceMi pt,
                  elevation = getElevation (svc (b + bIdx)) (lat pt) (lon pt)\<rparr>) (enumerate 0 batch),
           progress\<lparr>usgsCallCount := usgsCallCount progress + int (length batch)\<rparr>) =
         ((elevResults @ map (\<lambda>(bIdx, pt). \<lparr>idx = b + bIdx, distMi = distanceMi pt,
                  elevation = getElevation (svc (b + bIdx)) (lat pt) (lon pt)\<rparr>) (enumerate 0 batch)) @
           map (elevResultOf svc) (enumerate (b + USGS_CONCURRENCY) (drop (b + USGS_CONCURRENCY) points)),
         progress\<lparr>usgsCallCount := usgsCallCount progress + int (length batch)\<rparr>
           \<lparr>usgsCallCount := usgsCallCount (progress\<lparr>usgsCallCount := usgsCallCount progress + int (length batch)\<rparr>)
            + int (length points - (b + USGS_CONCURRENCY))\<rparr>)"
      unfolding batch_def by (rule "1.hyps" [OF True refl refl])
    also have "\<dots> = (elevResults @ map (elevResultOf svc) (enumerate b (drop b points)),
        progress\<lparr>usgsCallCount := usgsCallCount progress + int (length points - b)\<rparr>)"
    proof -
      have "enumerate b (drop b points) = enumerate b (batch @ drop (b + USGS_CONCURRENCY) points)"
        using split by simp
      then have enum: "map (elevResultOf svc) (enumerate b (drop b points)) =
          map (elevResultOf svc) (enumerate b batch) @
          map (elevResultOf svc) (enumerate (b + USGS_CONCURRENCY) (drop (b + USGS_CONCURRENCY) points))"
        by (simp add: enumerate_append_eq rest)
      show ?thesis using cnt by (simp add: res enum add.assoc)
    qed
    finally show ?thesis .
  qed
qed

lemma buildProfile_eq:
  "buildProfile rs profile gain prev =
     (profile @ resolvedOf rs,
      gain + positiveDeltaSum ((case prev of None \<Rightarrow> [] | Some p \<Rightarrow> [p]) @ map elevation_m (resolvedOf rs)))"
proof (induction rs arbitrary: profile gain prev)
  case Nil
  then show ?case by (simp add: resolvedOf_def map_filter_simps split: option.splits)
next
  case (Cons r rs)
  show ?case
  proof (cases "elevation r")
    case None
    then show ?thesis using Cons by (simp add: resolvedOf_def map_filter_simps)
  next
    case (Some e)
    then show ?thesis using Cons
      by (cases prev) (simp_all add: resolvedOf_def map_filter_simps)
  qed
qed

lemma resolvedOf_results:
  "resolvedOf (map (elevResultOf svc) (enumerate 0 (samplePoints T (geometry trail) PROFILE_SAMPLES (length_miles trail)))) =
   resolvedPoints T svc trail"
proof -
  have "resolvedOf (map (elevResultOf svc) xs) =
      List.map_filter (\<lambda>(k, pt). map_option (\<lambda>e. \<lparr>distance_mi = distanceMi pt, elevation_m = e\<rparr>)
            (getElevation (svc k) (lat pt) (lon pt))) xs" for xs
    by (induction xs) (auto simp: resolvedOf_def map_filter_simps elevResultOf_def split: option.splits)
  then show ?thesis by (simp add: resolvedPoints_def)
qed

lemma resolvedPoints_Ints: "elevation_m ` set (resolvedPoints T svc trail) \<subseteq> \<int>"
  by (auto simp: resolvedPoints_def List.map_filter_def dest: getElevation_Ints)

lemma sorted_results:
  "sort_key idx (map (elevResultOf svc) (enumerate 0 xs)) = map (elevResultOf svc) (enumerate 0 xs)"
proof -
  have "idx (elevResultOf svc p) = fst p" for p
    by (cases p) (simp add: elevResultOf_def)
  then have "map idx (map (elevResultOf svc) (enumerate 0 xs)) = map fst (enumerate 0 xs)"
    by (simp add: comp_def)
  then have "sorted (map idx (map (elevResultOf svc) (enumerate 0 xs)))" by simp
  then show ?thesis by (rule sort_key_id_if_sorted)
qed

lemma usgsProfile_eq:
  "usgsProfile T svc trail pr =
     (let points = samplePoints T (geometry trail) PROFILE_SAMPLES (length_miles trail);
          profile = resolvedPoints T svc trail;
          pr2 = pr\<lparr>usgsCallCount := usgsCallCount pr + int (length points),
                   processedCount := processedCount pr + 1\<rparr>
      in if profile \<noteq> [] then
           (trail\<lparr>elevation_profile := Some profile,
                   elevation_gain := Some (positiveDeltaSum (map elevation_m profile)),
                   elevation_min := (if elevation_min trail = None
                      then Some (Min (set (map elevation_m profile))) else elevation_min trail),
                   elevation_max := (if elevation_max trail = None
                      then Some (Max (set (map elevation_m profile))) else elevation_max trail)\<rparr>, pr2)
         else
           (trail\<lparr>elevation_profile := Some (interpolateProfile trail 10),
                   elevation_gain := halfSpreadGain trail\<rparr>, pr2))"
proof -
  have "positiveDeltaSum (map elevation_m (resolvedPoints T svc trail)) \<in> \<int>"
    using resolvedPoints_Ints [of T svc trail] by (intro positiveDeltaSum_Ints) simp
  then have r: "js_round (positiveDeltaSum (map elevation_m (resolvedPoints T svc trail))) =
      positiveDeltaSum (map elevation_m (resolvedPoints T svc trail))"
    by (rule js_round_Ints)
  show ?thesis
    by (simp add: usgsProfile_def fetchBatches_eq sorted_results buildProfile_eq resolvedOf_results
        Let_def r)
qed

lemma getElevation_all_failed:
  assumes "\<forall>k. 1 \<le> k \<and> k \<le> MAX_RETRIES \<longrightarrow> fetch k = Failed"
  shows "getElevation_loop fetch 1 [] = (None, MAX_RETRIES, [1000, 2000])"
proof -
  have "getElevation_loop fetch 1 [] =
      getElevation_loop fetch MAX_RETRIES ([] @ map (\<lambda>k. 1000 * k) [1..<MAX_RETRIES])"
    using assms by (intro loop_failed_prefix) (auto simp: MAX_RETRIES_def)
  moreover have "fetch MAX_RETRIES = Failed" using assms by (simp add: MAX_RETRIES_def)
  moreover have "[1..<MAX_RETRIES] = [1, 2]" by (simp add: MAX_RETRIES_def upt_rec)
  ultimately show ?thesis by (simp add: loop_exhausted)
qed

lemma getElevation_down: "getElevation downService plat plon = None"
proof -
  have "getElevation_loop (downService plat plon) 1 [] = (None, MAX_RETRIES, [1000, 2000])"
    by (rule getElevation_all_failed) (simp add: downService_def)
  then show ?thesis unfolding getElevation_def getElevation_trace_def by simp
qed

lemma getElevation_steady: "getElevation steadyService plat plon = Some 2500"
proof -
  have "getElevation_loop (steadyService plat plon) 1 [] =
      ((case Some 2500.4 of Some x \<Rightarrow> if x \<noteq> - 1000000 then Some (js_round x) else None
        | None \<Rightarrow> None), 1, [])"
    by (rule loop_answer) (simp_all add: steadyService_def MAX_RETRIES_def)
  then show ?thesis unfolding getElevation_def getElevation_trace_def by (simp add: js_round_def)
qed

lemma resolvedPoints_none:
  "(\<And>k plat plon. getElevation (svc k) plat plon = None) \<Longrightarrow> resolvedPoints T svc trail = []"
  by (simp add: resolvedPoints_def List.map_filter_def)

lemma resolvedPoints_all:
  assumes "\<And>k plat plon. getElevation (svc k) plat plon \<noteq> None"
  shows "length (resolvedPoints T svc trail) =
     length (samplePoints T (geometry trail) PROFILE_SAMPLES (length_miles trail))"
proof -
  have "filter (\<lambda>x. (case x of (k, pt) \<Rightarrow>
           map_option (\<lambda>e. \<lparr>distance_mi = distanceMi pt, elevation_m = e\<rparr>)
            (getElevation (svc k) (lat pt) (lon pt))) \<noteq> None) xs = xs" for xs :: "(nat \<times> sample) list"
    using assms by (induction xs) auto
  then show ?thesis by (simp add: resolvedPoints_def List.map_filter_def)
qed

lemma trails_saves [simp]:
  "trails (saveProgress st) = trails st" "trails (saveTrails st) = trails st"
  "progress (saveProgress st) = progress st" "progress (saveTrails st) = progress st"
  by (simp_all add: saveProgress_def saveTrails_def)

lemma iteration_trail:
  assumes "\<not> has_profile (trails st ! i)" and "i < length (trails st)"
  shows "trails (iteration T svc eligible i st) ! i =
     (if i \<in> eligible
      then fst (usgsProfile T (svc i) (resolveBaseFields T (trails st ! i)) (progress st))
      else (resolveBaseFields T (trails st ! i))
             \<lparr>elevation_profile := Some (interpolateProfile (resolveBaseFields T (trails st ! i)) 10),
              elevation_gain := halfSpreadGain (resolveBaseFields T (trails st ! i))\<rparr>)"
  using assms by (simp add: iteration_def Let_def case_prod_unfold)

lemma resolveBaseFields_fields [simp]:
  "elevation_min (resolveBaseFields T t) = elevation_min_m t"
  "elevation_max (resolveBaseFields T t) = elevation_max_m t"
  "elevation_min_m (resolveBaseFields T t) = elevation_min_m t"
  "elevation_max_m (resolveBaseFields T t) = elevation_max_m t"
  "length_miles (resolveBaseFields T t) = length_miles t"
  "geometry (resolveBaseFields T t) = geometry t"
  "elevation_profile (resolveBaseFields T t) = elevation_profile t"
  by (simp_all add: resolveBaseFields_def Let_def)

lemma usgsProfile_resolved:
  assumes "resolvedPoints T svc trail \<noteq> []"
  shows "elevation_profile (fst (usgsProfile T svc trail pr)) = Some (resolvedPoints T svc trail)"
    and "elevation_gain (fst (usgsProfile T svc trail pr)) =
       Some (positiveDeltaSum (map elevation_m (resolvedPoints T svc trail)))"
  using assms by (simp_all add: usgsProfile_eq Let_def)

lemma usgsProfile_fallback:
  assumes "resolvedPoints T svc trail = []"
  shows "fst (usgsProfile T svc trail pr) =
     trail\<lparr>elevation_profile := Some (interpolateProfile trail 10),
           elevation_gain := halfSpreadGain trail\<rparr>"
  using assms by (simp add: usgsProfile_eq Let_def)

lemma positiveDeltaSum_nth:
  "positiveDeltaSum (map elevation_m ps) =
     (\<Sum>k<length ps - 1. max 0 (elevation_m (ps ! Suc k) - elevation_m (ps ! k)))"
  unfolding positiveDeltaSum_sum by (rule sum.cong) auto

lemma usgsEligible_single: "usgsEligible [t] = {0}"
  by (simp add: usgsEligible_def USGS_PROFILE_LIMIT_def)

subsection \<open>calculateDominantAspect\<close>

text \<open>
  \<open>js_atan2\<close> is the angle of the point \<open>(x, y)\<close>: it lies in \<open>(-pi, pi]\<close> and gives
  back the point in polar form.
\<close>

lemma js_atan2_range: "- pi < js_atan2 y x \<and> js_atan2 y x \<le> pi"
proof -
  have b: "- (pi / 2) < arctan (y / x)" "arctan (y / x) < pi / 2"
    by (rule arctan_lbound, rule arctan_ubound)
  consider "0 < x" | "x < 0" "0 \<le> y" | "x < 0" "y < 0" | "x = 0" by linarith
  then show ?thesis
  proof cases
    case 1
    then show ?thesis using b pi_gt_zero by (simp add: js_atan2_def)
  next
    case 2
    then have "y / x \<le> 0" by (simp add: divide_nonneg_neg)
    then have "arctan (y / x) \<le> 0" by (simp add: arctan_le_zero_iff)
    then show ?thesis using 2 b by (simp add: js_atan2_def)
  next
    case 3
    then have "0 < y / x" by (simp add: divide_neg_neg)
    then have "0 < arctan (y / x)" by (simp add: zero_less_arctan_iff)
    then show ?thesis using 3 b by (simp add: js_atan2_def)
  next
    case 4
    from 4 have "js_atan2 y x = pi / 2 \<or> js_atan2 y x = - (pi / 2) \<or> js_atan2 y x = 0"
      by (simp add: js_atan2_def)
    moreover have "- pi < pi / 2" "pi / 2 \<le> pi" "- pi < - (pi / 2)" "- (pi / 2) \<le> pi"
        "- pi < 0" "0 \<le> pi"
      using pi_gt_zero by linarith+
    ultimately show ?thesis by metis
  qed
qed

lemma sqrt_scale:
  assumes "x \<noteq> 0"
  shows "sqrt (x\<^sup>2 + y\<^sup>2) = \<bar>x\<bar> * sqrt (1 + (y / x)\<^sup>2)"
proof -
  have "x\<^sup>2 + y\<^sup>2 = x\<^sup>2 * (1 + (y / x)\<^sup>2)"
    using assms by (simp add: field_simps power2_eq_square)
  then show ?thesis by (simp add: real_sqrt_mult)
qed

lemma js_atan2_polar:
  "x = sqrt (x\<^sup>2 + y\<^sup>2) * cos (js_atan2 y x) \<and> y = sqrt (x\<^sup>2 + y\<^sup>2) * sin (js_atan2 y x)"
proof -
  have pos: "0 < sqrt (1 + (y / x)\<^sup>2)"
    by (simp add: add_pos_nonneg)
  consider "0 < x" | "x < 0" "0 \<le> y" | "x < 0" "y < 0" | "x = 0" "0 < y" | "x = 0" "y < 0" | "x = 0" "y = 0"
    by linarith
  then show ?thesis
  proof cases
    case 1
    then show ?thesis using pos
      by (simp add: js_atan2_def sqrt_scale [of x y] cos_arctan sin_arctan)
  next
    case 2
    then show ?thesis using pos
      by (simp add: js_atan2_def sqrt_scale [of x y] cos_arctan sin_arctan)
  next
    case 3
    then show ?thesis using pos
      by (simp add: js_atan2_def sqrt_scale [of x y] cos_arctan sin_arctan)
  next
    case 4
    then show ?thesis by (simp add: js_atan2_def)
  next
    case 5
    then show ?thesis by (simp add: js_atan2_def)
  next
    case 6
    then show ?thesis by (simp add: js_atan2_def)
  qed
qed


lemma js_rem_small: "0 \<le> x \<Longrightarrow> x < m \<Longrightarrow> js_rem x m = x"
proof -
  assume a: "0 \<le> x" "x < m"
  then have "0 \<le> x / m" "x / m < 1" by (simp_all add: field_simps)
  then have "\<lfloor>x / m\<rfloor> = 0" by linarith
  then show ?thesis using \<open>0 \<le> x / m\<close> by (simp add: js_rem_def)
qed

lemma js_rem_small_neg: "- m < x \<Longrightarrow> x < 0 \<Longrightarrow> js_rem x m = x"
proof -
  assume a: "- m < x" "x < 0"
  then have m: "0 < m" by linarith
  have "- 1 < x / m" using a m by (simp add: field_simps)
  moreover have "x / m < 0" using a m by (simp add: divide_neg_pos)
  ultimately have "\<lceil>x / m\<rceil> = 0" by linarith
  then show ?thesis using \<open>x / m < 0\<close> by (simp add: js_rem_def)
qed

lemma js_rem_once: "m \<le> x \<Longrightarrow> x < 2 * m \<Longrightarrow> 0 < m \<Longrightarrow> js_rem x m = x - m"
proof -
  assume a: "m \<le> x" "x < 2 * m" "0 < m"
  have "1 \<le> x / m" "x / m < 2" using a by (simp_all add: field_simps)
  then have "\<lfloor>x / m\<rfloor> = 1" by linarith
  then show ?thesis using \<open>1 \<le> x / m\<close> by (simp add: js_rem_def)
qed

lemma meanBearing_eq:
  "meanBearing sinSum cosSum =
     (if js_atan2 sinSum cosSum < 0 then js_atan2 sinSum cosSum * 180 / pi + 360
      else js_atan2 sinSum cosSum * 180 / pi)"
proof -
  define a where "a = js_atan2 sinSum cosSum * 180 / pi"
  have r: "- 180 < a" "a \<le> 180"
    using js_atan2_range [of sinSum cosSum] pi_gt_zero by (simp_all add: a_def field_simps)
  have s: "(js_atan2 sinSum cosSum < 0) = (a < 0)"
    using pi_gt_zero by (simp add: a_def field_simps)
  show ?thesis
  proof (cases "a < 0")
    case True
    then have "js_rem a 360 = a" using r by (intro js_rem_small_neg) simp_all
    moreover have "js_rem (a + 360) 360 = a + 360" using r True by (intro js_rem_small) simp_all
    ultimately show ?thesis using True s by (simp add: meanBearing_def a_def Let_def)
  next
    case False
    then have "js_rem a 360 = a" using r by (intro js_rem_small) simp_all
    moreover have "js_rem (a + 360) 360 = a + 360 - 360" using r False by (intro js_rem_once) simp_all
    ultimately show ?thesis using False s by (simp add: meanBearing_def a_def Let_def)
  qed
qed

lemma meanBearing_range: "0 \<le> meanBearing sinSum cosSum \<and> meanBearing sinSum cosSum < 360"
proof -
  have r: "- 180 < js_atan2 sinSum cosSum * 180 / pi" "js_atan2 sinSum cosSum * 180 / pi \<le> 180"
    using js_atan2_range [of sinSum cosSum] pi_gt_zero by (simp_all add: field_simps)
  have "js_atan2 sinSum cosSum < 0 \<Longrightarrow> js_atan2 sinSum cosSum * 180 / pi < 0"
    using pi_gt_zero by (simp add: field_simps)
  moreover have "\<not> js_atan2 sinSum cosSum < 0 \<Longrightarrow> 0 \<le> js_atan2 sinSum cosSum * 180 / pi"
    using pi_gt_zero by (simp add: field_simps)
  ultimately show ?thesis using r unfolding meanBearing_eq by auto
qed

lemma meanBearing_polar:
  "sinSum = sqrt (sinSum\<^sup>2 + cosSum\<^sup>2) * sin (meanBearing sinSum cosSum * pi / 180) \<and>
   cosSum = sqrt (sinSum\<^sup>2 + cosSum\<^sup>2) * cos (meanBearing sinSum cosSum * pi / 180)"
proof -
  have "meanBearing sinSum cosSum * pi / 180 =
      (if js_atan2 sinSum cosSum < 0 then js_atan2 sinSum cosSum + 2 * pi
       else js_atan2 sinSum cosSum)"
    using pi_gt_zero by (simp add: meanBearing_eq field_simps)
  then have "sin (meanBearing sinSum cosSum * pi / 180) = sin (js_atan2 sinSum cosSum) \<and>
      cos (meanBearing sinSum cosSum * pi / 180) = cos (js_atan2 sinSum cosSum)"
    by simp
  then show ?thesis using js_atan2_polar [of cosSum sinSum] by (simp add: add.commute)
qed

lemma octant_sector:
  assumes "0 \<le> b" and "b < 360"
  shows "inSector (octant b) b" and "inSector a b \<Longrightarrow> a = octant b"
proof -
  show "inSector (octant b) b"
    using assms by (simp add: octant_def inSector_def)
  show "a = octant b" if "inSector a b"
    using that assms by (cases a) (simp_all add: octant_def inSector_def split: if_splits)
qed


lemma bearingLoop_eq:
  "bearingLoop T coords sinSum cosSum =
     map_option
       (\<lambda>bs. (sinSum + sum_list (map (\<lambda>b. sin (b * pi / 180)) bs),
              cosSum + sum_list (map (\<lambda>b. cos (b * pi / 180)) bs)))
       (those (bearingsOf T coords))"
proof (induction T coords sinSum cosSum rule: bearingLoop.induct)
  case (1 T c1 c2 cs sinSum cosSum)
  show ?case
  proof (cases "turf_bearing T c1 c2")
    case None
    then show ?thesis by (simp add: bearingsOf_def)
  next
    case (Some bearing)
    have b: "bearingsOf T (c1 # c2 # cs) = Some bearing # bearingsOf T (c2 # cs)"
      using Some by (simp add: bearingsOf_def)
    show ?thesis
      using Some "1.IH" [OF Some]
      by (cases "those (bearingsOf T (c2 # cs))") (simp_all add: b add.assoc)
  qed
qed (simp_all add: bearingsOf_def)

lemma those_length: "those xs = Some ys \<Longrightarrow> length ys = length xs"
  by (induction xs arbitrary: ys) (auto split: option.splits)

lemma sum_east:
  "\<forall>b \<in> set bs. b = 90 \<Longrightarrow>
   sum_list (map (\<lambda>b. sin (b * pi / 180)) bs) = real (length bs) \<and>
   sum_list (map (\<lambda>b. cos (b * pi / 180)) bs) = 0"
  by (induction bs) simp_all

lemma meanBearing_east: "0 < s \<Longrightarrow> meanBearing s 0 = 90"
  using pi_gt_zero by (simp add: meanBearing_eq js_atan2_def)

text \<open>
  Claim C9. With fewer than two coordinates in the flattened sequence the result is no
  aspect, and so it is when turf throws on one of the consecutive pairs. Otherwise let
  \<open>bs\<close> be the bearings of the consecutive pairs, and \<open>sinSum\<close> and \<open>cosSum\<close> the sums
  of their sines and cosines. The mean bearing lies in \<open>[0, 360)\<close> and is the direction
  of the vector \<open>(cosSum, sinSum)\<close>, that is the circular mean of the bearings; the
  result is the octant whose half-open sector of 45 degrees contains it (north covering
  \<open>[337.5, 360)\<close> and \<open>[0, 22.5)\<close>), and no other sector contains it. When every
  bearing is 90 degrees (a line running due east) the result is \<open>E\<close>.
\<close>

theorem dominant_aspect_octant:
  "(length (concat coordinates) < 2 \<longrightarrow> calculateDominantAspect T coordinates = None) \<and>
   (2 \<le> length (concat coordinates) \<and> those (bearingsOf T (concat coordinates)) = None \<longrightarrow>
      calculateDominantAspect T coordinates = None) \<and>
   (2 \<le> length (concat coordinates) \<and> those (bearingsOf T (concat coordinates)) = Some bs \<longrightarrow>
      (let sinSum = sum_list (map (\<lambda>b. sin (b * pi / 180)) bs);
           cosSum = sum_list (map (\<lambda>b. cos (b * pi / 180)) bs);
           mean = meanBearing sinSum cosSum
       in 0 \<le> mean \<and> mean < 360 \<and>
          sinSum = sqrt (sinSum\<^sup>2 + cosSum\<^sup>2) * sin (mean * pi / 180) \<and>
          cosSum = sqrt (sinSum\<^sup>2 + cosSum\<^sup>2) * cos (mean * pi / 180) \<and>
          calculateDominantAspect T coordinates = Some (octant mean) \<and>
          inSector (octant mean) mean \<and>
          (\<forall>a. inSector a mean \<longrightarrow> a = octant mean))) \<and>
   (2 \<le> length (concat coordinates) \<and> those (bearingsOf T (concat coordinates)) = Some bs \<and>
      (\<forall>b \<in> set bs. b = 90) \<longrightarrow>
      calculateDominantAspect T coordinates = Some E)"
proof (intro conjI impI)
  assume "length (concat coordinates) < 2"
  then show "calculateDominantAspect T coordinates = None"
    by (simp add: calculateDominantAspect_def)
next
  assume "2 \<le> length (concat coordinates) \<and> those (bearingsOf T (concat coordinates)) = None"
  then show "calculateDominantAspect T coordinates = None"
    by (simp add: calculateDominantAspect_def bearingLoop_eq)
next
  assume a: "2 \<le> length (concat coordinates) \<and> those (bearingsOf T (concat coordinates)) = Some bs"
  define sinSum where "sinSum = sum_list (map (\<lambda>b. sin (b * pi / 180)) bs)"
  define cosSum where "cosSum = sum_list (map (\<lambda>b. cos (b * pi / 180)) bs)"
  have r: "calculateDominantAspect T coordinates = Some (octant (meanBearing sinSum cosSum))"
    using a by (simp add: calculateDominantAspect_def bearingLoop_eq sinSum_def cosSum_def)
  show "let sinSum = sum_list (map (\<lambda>b. sin (b * pi / 180)) bs);
           cosSum = sum_list (map (\<lambda>b. cos (b * pi / 180)) bs);
           mean = meanBearing sinSum cosSum
       in 0 \<le> mean \<and> mean < 360 \<and>
          sinSum = sqrt (sinSum\<^sup>2 + cosSum\<^sup>2) * sin (mean * pi / 180) \<and>
          cosSum = sqrt (sinSum\<^sup>2 + cosSum\<^sup>2) * cos (mean * pi / 180) \<and>
          calculateDominantAspect T coordinates = Some (octant mean) \<and>
          inSector (octant mean) mean \<and>
          (\<forall>a. inSector a mean \<longrightarrow> a = octant mean)"
    unfolding Let_def sinSum_def [symmetric] cosSum_def [symmetric]
    using meanBearing_range [of sinSum cosSum] meanBearing_polar [of sinSum cosSum] r
      octant_sector [of "meanBearing sinSum cosSum"]
    by blast
next
  assume a: "2 \<le> length (concat coordinates) \<and> those (bearingsOf T (concat coordinates)) = Some bs \<and>
      (\<forall>b \<in> set bs. b = 90)"
  then have "length bs = length (bearingsOf T (concat coordinates))" by (simp add: those_length)
  then have "0 < length bs" using a by (simp add: bearingsOf_def)
  then have "meanBearing (real (length bs)) 0 = 90" by (intro meanBearing_east) simp
  then show "calculateDominantAspect T coordinates = Some E"
    using a sum_east [of bs]
    by (simp add: calculateDominantAspect_def bearingLoop_eq octant_def)
qed

text \<open>
  No coordinates; a turf whose bearing throws; the line of \<open>lineGeometry\<close> with
  bearings of 90 degrees.
\<close>

theorem dominant_aspect_octant_witness:
  "calculateDominantAspect exTurf [] = None \<and>
   calculateDominantAspect throwingTurf lineGeometry = None \<and>
   calculateDominantAspect exTurf lineGeometry = Some E \<and>
   inSector E (meanBearing 2 0)"
proof -
  have l: "2 \<le> length (concat lineGeometry)" by (simp add: lineGeometry_def)
  have t: "those (bearingsOf throwingTurf (concat lineGeometry)) = None"
    by (simp add: bearingsOf_def throwingTurf_def exTurf_def lineGeometry_def)
  have e: "those (bearingsOf exTurf (concat lineGeometry)) = Some [90, 90]"
    by (simp add: bearingsOf_def exTurf_def lineGeometry_def)
  have m: "meanBearing 2 0 = 90" by (rule meanBearing_east) simp
  have a: "calculateDominantAspect exTurf [] = None"
    using dominant_aspect_octant [of "[]" exTurf "[]"] by simp
  have b: "calculateDominantAspect throwingTurf lineGeometry = None"
    using dominant_aspect_octant [of lineGeometry throwingTurf "[]"] l t by simp
  have c: "calculateDominantAspect exTurf lineGeometry = Some E"
    using dominant_aspect_octant [of lineGeometry exTurf "[90, 90]"] l e by simp
  have d: "inSector E (meanBearing 2 0)"
    using dominant_aspect_octant [of lineGeometry exTurf "[90, 90]"] l e c
    by (simp add: Let_def m octant_def)
  show ?thesis using a b c d by simp
qed

subsection \<open>The main loop\<close>

lemma mainLoop_fold:
  "mainLoop T svc eligible total' i st = fold (iteration T svc eligible) [i..<total'] st"
proof (induction T svc eligible total' i st rule: mainLoop.induct)
  case (1 T svc eligible total' i st)
  show ?case
  proof (cases "i < total'")
    case True
    then show ?thesis using 1 by (subst mainLoop.simps) (simp add: upt_conv_Cons)
  next
    case False
    then show ?thesis by (subst mainLoop.simps) simp
  qed
qed

lemma mainLoop_Suc:
  "i \<le> n \<Longrightarrow> mainLoop T svc eligible (Suc n) i st =
     iteration T svc eligible n (mainLoop T svc eligible n i st)"
  by (simp add: mainLoop_fold)

lemma mainLoop_empty: "n \<le> i \<Longrightarrow> mainLoop T svc eligible n i st = st"
  by (simp add: mainLoop_fold)

lemma usgsProfile_length_miles:
  "length_miles (fst (usgsProfile T svc trail pr)) = length_miles trail"
  by (simp add: usgsProfile_eq Let_def)

lemma iteration_trails:
  "trails (iteration T svc eligible i st) = trails st \<or>
   (\<exists>t. trails (iteration T svc eligible i st) = (trails st)[i := t] \<and>
        length_miles t = length_miles (trails st ! i))"
proof (cases "has_profile (trails st ! i)")
  case True
  then show ?thesis by (simp add: iteration_skip)
next
  case False
  show ?thesis
  proof (cases "i \<in> eligible")
    case True
    then have "trails (iteration T svc eligible i st) =
        (trails st)[i := fst (usgsProfile T (svc i) (resolveBaseFields T (trails st ! i)) (progress st))]"
      using False by (simp add: iteration_def Let_def case_prod_unfold)
    then show ?thesis by (auto simp: usgsProfile_length_miles)
  next
    case ne: False
    then have "trails (iteration T svc eligible i st) =
        (trails st)[i := (resolveBaseFields T (trails st ! i))
             \<lparr>elevation_profile := Some (interpolateProfile (resolveBaseFields T (trails st ! i)) 10),
              elevation_gain := halfSpreadGain (resolveBaseFields T (trails st ! i))\<rparr>]"
      using False by (simp add: iteration_def Let_def)
    then show ?thesis by auto
  qed
qed

lemma iteration_length [simp]:
  "length (trails (iteration T svc eligible i st)) = length (trails st)"
  using iteration_trails [of T svc eligible i st] by auto

lemma iteration_other:
  "j \<noteq> i \<Longrightarrow> trails (iteration T svc eligible i st) ! j = trails st ! j"
  using iteration_trails [of T svc eligible i st] by auto

lemma iteration_length_miles:
  "map length_miles (trails (iteration T svc eligible i st)) = map length_miles (trails st)"
proof -
  from iteration_trails [of T svc eligible i st] show ?thesis
  proof
    assume "trails (iteration T svc eligible i st) = trails st"
    then show ?thesis by simp
  next
    assume "\<exists>t. trails (iteration T svc eligible i st) = (trails st)[i := t] \<and>
        length_miles t = length_miles (trails st ! i)"
    then obtain t where t: "trails (iteration T svc eligible i st) = (trails st)[i := t]"
      "length_miles t = length_miles (trails st ! i)" by blast
    have "map length_miles ((trails st)[i := t]) =
        (map length_miles (trails st))[i := length_miles (trails st ! i)]"
      by (simp add: map_update t(2))
    also have "\<dots> = map length_miles (trails st)"
    proof (cases "i < length (trails st)")
      case True
      then have "length_miles (trails st ! i) = map length_miles (trails st) ! i" by simp
      then show ?thesis by (simp only: list_update_id)
    next
      case False
      then show ?thesis by (intro list_update_beyond) simp
    qed
    finally show ?thesis unfolding t(1) .
  qed
qed

lemma mainLoop_length [simp]:
  "length (trails (mainLoop T svc eligible n i st)) = length (trails st)"
proof (induction n)
  case 0
  then show ?case by (simp add: mainLoop_empty)
next
  case (Suc n)
  then show ?case by (cases "i \<le> n") (simp_all add: mainLoop_Suc mainLoop_empty)
qed

lemma mainLoop_length_miles:
  "map length_miles (trails (mainLoop T svc eligible n i st)) = map length_miles (trails st)"
proof (induction n)
  case 0
  then show ?case by (simp add: mainLoop_empty)
next
  case (Suc n)
  then show ?case
    by (cases "i \<le> n") (simp_all add: mainLoop_Suc mainLoop_empty iteration_length_miles)
qed

lemma mainLoop_outside:
  "j < i \<or> n \<le> j \<Longrightarrow> trails (mainLoop T svc eligible n i st) ! j = trails st ! j"
proof (induction n)
  case 0
  then show ?case by (simp add: mainLoop_empty)
next
  case (Suc n)
  show ?case
  proof (cases "i \<le> n")
    case True
    have "j \<noteq> n" using Suc.prems True by auto
    then show ?thesis using Suc True by (auto simp: mainLoop_Suc iteration_other)
  next
    case False
    then show ?thesis by (simp add: mainLoop_empty)
  qed
qed

lemma usgsEligible_lengths:
  "map length_miles ts' = map length_miles ts \<Longrightarrow> usgsEligible ts' = usgsEligible ts"
proof -
  assume a: "map length_miles ts' = map length_miles ts"
  have e: "map (\<lambda>(i, t). (i, js_or (length_miles t) 0)) (enumerate 0 xs) =
      enumerate 0 (map (\<lambda>l. js_or l 0) (map length_miles xs))" for xs :: "TrailData list"
    by (simp add: enumerate_eq_zip zip_map2 case_prod_unfold)
  have "map (\<lambda>(i, t). (i, js_or (length_miles t) 0)) (enumerate 0 ts') =
      map (\<lambda>(i, t). (i, js_or (length_miles t) 0)) (enumerate 0 ts)"
    unfolding e a ..
  then show ?thesis unfolding usgsEligible_def by simp
qed

lemma iteration_writes:
  "writes (iteration T svc eligible i st) =
     writes st @
     (if checkpointDue eligible (trails st) i
      then [SaveTrails (trails (iteration T svc eligible i st)),
            SaveProgress (progress (iteration T svc eligible i st))]
      else [])"
  by (simp add: iteration_def checkpointDue_def Let_def case_prod_unfold saveProgress_def
      saveTrails_def)

lemma iteration_lastProcessed:
  "\<not> has_profile (trails st ! i) \<Longrightarrow>
   lastProcessedIndex (progress (iteration T svc eligible i st)) = int i"
  by (simp add: iteration_def Let_def case_prod_unfold saveProgress_def saveTrails_def)

lemma iteration_checkpoint_files:
  "checkpointDue eligible (trails st) i \<Longrightarrow>
   output_file (fs (iteration T svc eligible i st)) = Some (trails (iteration T svc eligible i st)) \<and>
   progress_file (fs (iteration T svc eligible i st)) = Some (progress (iteration T svc eligible i st))"
  by (simp add: iteration_def checkpointDue_def Let_def case_prod_unfold saveProgress_def
      saveTrails_def)

lemma iteration_inputs:
  "input_file (fs (iteration T svc eligible i st)) = input_file (fs st) \<and>
   raw_file (fs (iteration T svc eligible i st)) = raw_file (fs st)"
  by (simp add: iteration_def Let_def case_prod_unfold saveProgress_def saveTrails_def)

lemma mainLoop_inputs:
  "input_file (fs (mainLoop T svc eligible n i st)) = input_file (fs st) \<and>
   raw_file (fs (mainLoop T svc eligible n i st)) = raw_file (fs st)"
proof (induction n)
  case 0
  then show ?case by (simp add: mainLoop_empty)
next
  case (Suc n)
  then show ?case
    by (cases "i \<le> n") (simp_all add: mainLoop_Suc mainLoop_empty iteration_inputs)
qed

lemma checkpointDue_mainLoop:
  "checkpointDue eligible (trails (mainLoop T svc eligible n i st)) n =
   checkpointDue eligible (trails st) n"
  by (simp add: checkpointDue_def mainLoop_outside)

lemma mainLoop_writes:
  "writes (mainLoop T svc eligible n i st) =
     writes st @
     concat (map (\<lambda>j. [SaveTrails (trails (mainLoop T svc eligible (Suc j) i st)),
                       SaveProgress (progress (mainLoop T svc eligible (Suc j) i st))])
              (filter (checkpointDue eligible (trails st)) [i..<n]))"
proof (induction n)
  case 0
  then show ?case by (simp add: mainLoop_empty)
next
  case (Suc n)
  show ?case
  proof (cases "i \<le> n")
    case True
    then show ?thesis
      using Suc
      by (simp add: mainLoop_Suc iteration_writes checkpointDue_mainLoop)
  next
    case False
    then show ?thesis by (simp add: mainLoop_empty)
  qed
qed

lemma mainLoop_lastProcessed:
  "i \<le> j \<Longrightarrow> \<not> has_profile (trails st ! j) \<Longrightarrow>
   lastProcessedIndex (progress (mainLoop T svc eligible (Suc j) i st)) = int j"
  by (simp add: mainLoop_Suc iteration_lastProcessed mainLoop_outside)

lemma mainLoop_checkpoint_files:
  "i \<le> j \<Longrightarrow> checkpointDue eligible (trails st) j \<Longrightarrow>
   output_file (fs (mainLoop T svc eligible (Suc j) i st)) =
     Some (trails (mainLoop T svc eligible (Suc j) i st)) \<and>
   progress_file (fs (mainLoop T svc eligible (Suc j) i st)) =
     Some (progress (mainLoop T svc eligible (Suc j) i st))"
  by (simp add: mainLoop_Suc iteration_checkpoint_files checkpointDue_mainLoop)

lemma savedIndices_append: "savedIndices (xs @ ys) = savedIndices xs @ savedIndices ys"
  by (induction xs rule: savedIndices.induct) simp_all

lemma mainLoop_savedIndices:
  "savedIndices (writes (mainLoop T svc eligible n i st)) =
     savedIndices (writes st) @ map int (filter (checkpointDue eligible (trails st)) [i..<n])"
proof -
  have "savedIndices (concat (map (\<lambda>j. [SaveTrails (trails (mainLoop T svc eligible (Suc j) i st)),
                       SaveProgress (progress (mainLoop T svc eligible (Suc j) i st))]) js)) =
      map int js"
    if "\<forall>j \<in> set js. i \<le> j \<and> \<not> has_profile (trails st ! j)" for js
    using that by (induction js) (simp_all add: mainLoop_lastProcessed)
  then show ?thesis
    by (simp add: mainLoop_writes savedIndices_append checkpointDue_def)
qed

lemma usgsEligible_small:
  assumes "length ts \<le> USGS_PROFILE_LIMIT"
  shows "usgsEligible ts = {0..<length ts}"
proof -
  define xs where "xs = map (\<lambda>(i, t). (i, js_or (length_miles t) 0)) (enumerate 0 ts)"
  have "length (sort_key (\<lambda>(i, len). - len) xs) \<le> USGS_PROFILE_LIMIT"
    using assms by (simp add: xs_def)
  then have "set (take USGS_PROFILE_LIMIT (sort_key (\<lambda>(i, len). - len) xs)) = set xs"
    by simp
  moreover have "map fst xs = map fst (enumerate 0 ts)"
    by (simp add: xs_def case_prod_unfold comp_def)
  then have "set (map fst xs) = {0..<length ts}" by simp
  then have "fst ` set xs = {0..<length ts}" by simp
  ultimately show ?thesis by (simp add: usgsEligible_def xs_def [symmetric])
qed

lemma many_eligible: "usgsEligible manyTrails = {0..<26}"
  by (simp add: usgsEligible_small manyTrails_def USGS_PROFILE_LIMIT_def)

lemma many_due: "checkpointDue (usgsEligible manyTrails) manyTrails i = (i = 24)"
proof -
  have np: "\<not> has_profile (manyTrails ! i)" if "i < 26"
    using that by (simp add: manyTrails_def has_profile_def blankTrail_def)
  have "checkpointDue (usgsEligible manyTrails) manyTrails i = (i < 26 \<and> (i + 1) mod 25 = 0)"
    by (cases "i < 26") (simp_all add: checkpointDue_def many_eligible np CHECKPOINT_INTERVAL_def)
  also have "\<dots> = (i = 24)" by presburger
  finally show ?thesis .
qed

lemma upt_split_24: "a \<le> 24 \<Longrightarrow> [a..<26] = [a..<24] @ [24, 25]"
proof -
  assume "a \<le> 24"
  then have "[a..<24 + 2] = [a..<24] @ [24..<24 + 2]" by (rule upt_add_eq_append)
  then show ?thesis by (simp add: upt_rec)
qed

lemma many_filter: "a \<le> 24 \<Longrightarrow> filter (checkpointDue (usgsEligible manyTrails) manyTrails) [a..<26] = [24]"
proof -
  assume a: "a \<le> 24"
  have "filter (\<lambda>i. i = 24) [a..<24] = []" by (simp add: filter_empty_conv)
  then show ?thesis using a by (simp add: many_due [abs_def] upt_split_24)
qed

lemma enrich_result:
  assumes "loadInput f = Some rawTrails"
    and "0 \<le> lastProcessedIndex (loadProgress f) + 1"
    and "ts = resumeTrails f (lastProcessedIndex (loadProgress f) + 1) rawTrails"
    and "s = mainLoop T svc (usgsEligible ts) (length ts)
            (nat (lastProcessedIndex (loadProgress f) + 1))
            \<lparr>trails = ts, progress = loadProgress f, fs = f, writes = []\<rparr>"
  shows "\<exists>st'. enrichTrailsWithElevation T svc f = Inr st' \<and> trails st' = trails s \<and>
     progress st' = progress s \<and> savedIndices (writes st') = savedIndices (writes s)"
proof -
  have "enrichTrailsWithElevation T svc f =
      Inr (if progress_file (fs (saveTrails s)) \<noteq> None then unlinkProgress (saveTrails s)
           else saveTrails s)"
    using assms by (simp add: enrichTrailsWithElevation_def Let_def)
  moreover have "trails (unlinkProgress (saveTrails s)) = trails s"
      "progress (unlinkProgress (saveTrails s)) = progress s"
      "savedIndices (writes (unlinkProgress (saveTrails s))) = savedIndices (writes s)"
      "savedIndices (writes (saveTrails s)) = savedIndices (writes s)"
    by (simp_all add: unlinkProgress_def saveTrails_def savedIndices_append)
  ultimately show ?thesis by (cases "progress_file (fs (saveTrails s)) \<noteq> None") simp_all
qed

text \<open>
  Claim C5, as the code has it. A checkpoint is due after trail \<open>i\<close> when the trail goes
  through the service path (it is processed and eligible) and its position \<open>i + 1\<close> in
  the dataset is a multiple of \<open>CHECKPOINT_INTERVAL\<close>. The writes of the main loop
  are, in order, one pair for each index of its range at which a checkpoint is due: the
  dataset and then the progress record, both of the state right after that trail. So the
  progress records saved carry exactly those indices, after such a trail both files hold
  the state of that moment, and no checkpoint is due after a trail that is not eligible.
\<close>

theorem checkpoints_of_run:
  "writes (mainLoop T svc eligible total' startIndex st) =
     writes st @
     concat (map (\<lambda>i. [SaveTrails (trails (mainLoop T svc eligible (Suc i) startIndex st)),
                       SaveProgress (progress (mainLoop T svc eligible (Suc i) startIndex st))])
              (filter (checkpointDue eligible (trails st)) [startIndex..<total'])) \<and>
   savedIndices (writes (mainLoop T svc eligible total' startIndex st)) =
     savedIndices (writes st) @
     map int (filter (checkpointDue eligible (trails st)) [startIndex..<total']) \<and>
   (startIndex \<le> i \<and> checkpointDue eligible (trails st) i \<longrightarrow>
      output_file (fs (mainLoop T svc eligible (Suc i) startIndex st)) =
        Some (trails (mainLoop T svc eligible (Suc i) startIndex st)) \<and>
      progress_file (fs (mainLoop T svc eligible (Suc i) startIndex st)) =
        Some (progress (mainLoop T svc eligible (Suc i) startIndex st)) \<and>
      lastProcessedIndex (progress (mainLoop T svc eligible (Suc i) startIndex st)) = int i) \<and>
   (i \<notin> eligible \<longrightarrow> \<not> checkpointDue eligible (trails st) i)"
proof (intro conjI impI)
  show "writes (mainLoop T svc eligible total' startIndex st) =
     writes st @
     concat (map (\<lambda>i. [SaveTrails (trails (mainLoop T svc eligible (Suc i) startIndex st)),
                       SaveProgress (progress (mainLoop T svc eligible (Suc i) startIndex st))])
              (filter (checkpointDue eligible (trails st)) [startIndex..<total']))"
    by (rule mainLoop_writes)
  show "savedIndices (writes (mainLoop T svc eligible total' startIndex st)) =
     savedIndices (writes st) @
     map int (filter (checkpointDue eligible (trails st)) [startIndex..<total'])"
    by (rule mainLoop_savedIndices)
next
  assume a: "startIndex \<le> i \<and> checkpointDue eligible (trails st) i"
  then show "output_file (fs (mainLoop T svc eligible (Suc i) startIndex st)) =
        Some (trails (mainLoop T svc eligible (Suc i) startIndex st))"
    and "progress_file (fs (mainLoop T svc eligible (Suc i) startIndex st)) =
        Some (progress (mainLoop T svc eligible (Suc i) startIndex st))"
    by (simp_all add: mainLoop_checkpoint_files)
  show "lastProcessedIndex (progress (mainLoop T svc eligible (Suc i) startIndex st)) = int i"
    using a by (intro mainLoop_lastProcessed) (simp_all add: checkpointDue_def)
next
  assume "i \<notin> eligible"
  then show "\<not> checkpointDue eligible (trails st) i" by (simp add: checkpointDue_def)
qed

text \<open>
  A fresh run over 26 trails, all eligible: the one checkpoint is after trail 24, and with
  trail 24 not eligible there is none.
\<close>

theorem checkpoints_of_run_witness:
  "savedIndices
     (writes (mainLoop exTurf allDown (usgsEligible manyTrails) 26 0 manyStart)) = [24] \<and>
   lastProcessedIndex (progress manyCut) = 24 \<and>
   output_file (fs manyCut) = Some (trails manyCut) \<and>
   progress_file (fs manyCut) = Some (progress manyCut) \<and>
   25 \<in> usgsEligible manyTrails \<and>
   \<not> checkpointDue {0} (trails manyStart) 24"
proof -
  have t: "trails manyStart = manyTrails" "writes manyStart = []"
    by (simp_all add: manyStart_def)
  have d: "(0::nat) \<le> 24 \<and> checkpointDue (usgsEligible manyTrails) (trails manyStart) 24"
    by (simp add: t many_due)
  have n: "(24::nat) \<notin> {0}" by simp
  have e: "25 \<in> usgsEligible manyTrails" by (simp add: many_eligible)
  show ?thesis
    using d n e
      checkpoints_of_run [of exTurf allDown "usgsEligible manyTrails" 26 0 manyStart 24]
      checkpoints_of_run [of exTurf allDown "{0}" 26 0 manyStart 24]
    by (simp add: t many_filter manyCut_def)
qed

text \<open>
  The claim as stated counts the rank of a trail since the start of the run. A run over
  26 trails that resumes at index 10 saves its checkpoint after trail 24, the 15th trail
  of the run, and none after a trail of rank 25.
\<close>

theorem checkpoint_rank_counterexample:
  "lastProcessedIndex (loadProgress resumedFiles) + 1 = 10 \<and>
   map_sum id (savedIndices \<circ> writes)
     (enrichTrailsWithElevation exTurf allDown resumedFiles) = Inr [24] \<and>
   rankSinceStart 10 24 = 15 \<and>
   \<not> CHECKPOINT_INTERVAL dvd rankSinceStart 10 24"
proof -
  have p: "lastProcessedIndex (loadProgress resumedFiles) + 1 = 10"
    by (simp add: loadProgress_def resumedFiles_def)
  have i: "loadInput resumedFiles = Some manyTrails"
    by (simp add: loadInput_def resumedFiles_def)
  have r: "manyTrails = resumeTrails resumedFiles (lastProcessedIndex (loadProgress resumedFiles) + 1) manyTrails"
    by (simp add: resumeTrails_def resumedFiles_def)
  have l: "length manyTrails = 26" by (simp add: manyTrails_def)
  define s where "s = mainLoop exTurf allDown (usgsEligible manyTrails) (length manyTrails)
            (nat (lastProcessedIndex (loadProgress resumedFiles) + 1))
            \<lparr>trails = manyTrails, progress = loadProgress resumedFiles, fs = resumedFiles, writes = []\<rparr>"
  have f: "filter (checkpointDue (usgsEligible manyTrails) manyTrails) [10..<26] = [24]"
    by (rule many_filter) simp
  have w: "savedIndices (writes s) = [24]"
    unfolding s_def p l by (simp del: upt_rec_numeral add: mainLoop_savedIndices f)
  from enrich_result [OF i _ r s_def] p obtain st' where
    "enrichTrailsWithElevation exTurf allDown resumedFiles = Inr st'"
    "savedIndices (writes st') = savedIndices (writes s)"
    by auto
  then have "map_sum id (savedIndices \<circ> writes)
     (enrichTrailsWithElevation exTurf allDown resumedFiles) = Inr [24]"
    by (simp add: w)
  then show ?thesis
    using p by (simp add: rankSinceStart_def CHECKPOINT_INTERVAL_def)
qed

text \<open>
  Claim C4. Take a run that finds a progress record with \<open>lastProcessedIndex = k\<close> and
  resumes over the dataset \<open>ts\<close> (the trails of the output file, or of the input when
  there is no output file), whose lengths are those of the input. Its eligibility set is
  the one a run from scratch computes over the input. The run returns, its trails are
  those of the main loop started at index \<open>k + 1\<close> with that eligibility set, and the
  trails at the indices up to \<open>k\<close> are as they were loaded. The hypothesis on the
  lengths holds for every dataset that a run over the input has written: the main loop
  never changes a length.
\<close>

theorem resume_after_checkpoint:
  assumes "loadInput f = Some rawTrails"
    and "progress_file f = Some p" and "lastProcessedIndex p = int k"
    and "ts = resumeTrails f (int k + 1) rawTrails"
    and "map length_miles ts = map length_miles rawTrails"
  shows "usgsEligible ts = usgsEligible rawTrails \<and>
    (\<exists>st'. enrichTrailsWithElevation T svc f = Inr st' \<and>
       trails st' =
         trails (mainLoop T svc (usgsEligible rawTrails) (length ts) (Suc k)
                   \<lparr>trails = ts, progress = p, fs = f, writes = []\<rparr>) \<and>
       (\<forall>j. j \<le> k \<longrightarrow> trails st' ! j = ts ! j)) \<and>
    map length_miles (trails (mainLoop T0 svc0 eligible0 n0 i0 st0)) =
      map length_miles (trails st0)"
proof (intro conjI)
  show e: "usgsEligible ts = usgsEligible rawTrails"
    using assms(5) by (rule usgsEligible_lengths)
  have lp: "loadProgress f = p" using assms(2) by (simp add: loadProgress_def)
  define s where "s = mainLoop T svc (usgsEligible ts) (length ts)
            (nat (lastProcessedIndex (loadProgress f) + 1))
            \<lparr>trails = ts, progress = loadProgress f, fs = f, writes = []\<rparr>"
  have n: "nat (lastProcessedIndex p + 1) = Suc k"
    using assms(3) by simp
  have s: "s = mainLoop T svc (usgsEligible rawTrails) (length ts) (Suc k)
                   \<lparr>trails = ts, progress = p, fs = f, writes = []\<rparr>"
    unfolding s_def lp n e ..
  have "0 \<le> lastProcessedIndex (loadProgress f) + 1" using assms(3) by (simp add: lp)
  from enrich_result [OF assms(1) this _ s_def] assms(3,4) obtain st' where st':
    "enrichTrailsWithElevation T svc f = Inr st'" "trails st' = trails s"
    by (auto simp: lp)
  have "trails s ! j = ts ! j" if "j \<le> k" for j
    unfolding s using that by (subst mainLoop_outside) simp_all
  then show "\<exists>st'. enrichTrailsWithElevation T svc f = Inr st' \<and>
       trails st' =
         trails (mainLoop T svc (usgsEligible rawTrails) (length ts) (Suc k)
                   \<lparr>trails = ts, progress = p, fs = f, writes = []\<rparr>) \<and>
       (\<forall>j. j \<le> k \<longrightarrow> trails st' ! j = ts ! j)"
    using st' s by auto
  show "map length_miles (trails (mainLoop T0 svc0 eligible0 n0 i0 st0)) =
      map length_miles (trails st0)"
    by (rule mainLoop_length_miles)
qed

text \<open>
  Resuming from the files that the run over 26 trails leaves when it is cut off after its
  checkpoint at trail 24.
\<close>

theorem resume_after_checkpoint_witness:
  "loadInput (fs manyCut) = Some manyTrails \<and>
   progress_file (fs manyCut) = Some (progress manyCut) \<and>
   lastProcessedIndex (progress manyCut) = 24 \<and>
   resumeTrails (fs manyCut) 25 manyTrails = trails manyCut \<and>
   usgsEligible (trails manyCut) = usgsEligible manyTrails \<and>
   (\<exists>st'. enrichTrailsWithElevation exTurf allSteady (fs manyCut) = Inr st' \<and>
      trails st' ! 24 = trails manyCut ! 24)"
proof -
  have t: "trails manyStart = manyTrails" by (simp add: manyStart_def)
  have d: "checkpointDue (usgsEligible manyTrails) (trails manyStart) 24"
    by (simp add: t many_due)
  have files: "output_file (fs manyCut) = Some (trails manyCut)"
      "progress_file (fs manyCut) = Some (progress manyCut)"
    using mainLoop_checkpoint_files [where i = 0 and j = 24 and st = manyStart and T = exTurf
        and svc = allDown and eligible = "usgsEligible manyTrails"] d
    by (simp_all add: manyCut_def)
  have inp: "loadInput (fs manyCut) = Some manyTrails"
    using mainLoop_inputs [of exTurf allDown "usgsEligible manyTrails" 25 0 manyStart]
    by (simp add: loadInput_def manyCut_def manyStart_def noFiles_def)
  have last: "lastProcessedIndex (progress manyCut) = int 24"
    using d mainLoop_lastProcessed [where i = 0 and j = 24 and st = manyStart and T = exTurf
        and svc = allDown and eligible = "usgsEligible manyTrails"]
    by (simp add: manyCut_def checkpointDue_def)
  have res: "trails manyCut = resumeTrails (fs manyCut) (int 24 + 1) manyTrails"
    by (simp add: resumeTrails_def files)
  have len: "map length_miles (trails manyCut) = map length_miles manyTrails"
    by (simp add: manyCut_def mainLoop_length_miles t)
  note th = resume_after_checkpoint [OF inp files(2) last res len,
      of exTurf allSteady exTurf allDown "{}" 0 0 manyStart]
  from th have e: "usgsEligible (trails manyCut) = usgsEligible manyTrails" by blast
  from th obtain st' where
    "enrichTrailsWithElevation exTurf allSteady (fs manyCut) = Inr st'"
    "\<forall>j. j \<le> 24 \<longrightarrow> trails st' ! j = trails manyCut ! j"
    by blast
  then have x: "\<exists>st'. enrichTrailsWithElevation exTurf allSteady (fs manyCut) = Inr st' \<and>
      trails st' ! 24 = trails manyCut ! 24"
    by auto
  show ?thesis
    using inp files(2) last res [symmetric] e x by simp
qed

subsection \<open>The gain of a processed trail\<close>

lemma mainLoop_split:
  assumes "i \<le> m" and "m \<le> n"
  shows "mainLoop T svc eligible n i st = mainLoop T svc eligible n m (mainLoop T svc eligible m i st)"
proof -
  obtain k where k: "n = m + k" using assms(2) le_Suc_ex by blast
  have "[i..<m + k] = [i..<m] @ [m..<m + k]" using assms(1) by (rule upt_add_eq_append)
  then show ?thesis unfolding k by (simp add: mainLoop_fold)
qed

lemma mainLoop_trail:
  assumes "startIndex \<le> i" and "i < total'"
  shows "trails (mainLoop T svc eligible total' startIndex st) ! i =
     trails (iteration T svc eligible i (mainLoop T svc eligible i startIndex st)) ! i"
proof -
  have "mainLoop T svc eligible total' startIndex st =
      mainLoop T svc eligible total' (Suc i) (mainLoop T svc eligible (Suc i) startIndex st)"
    using assms by (intro mainLoop_split) simp_all
  then have "trails (mainLoop T svc eligible total' startIndex st) ! i =
      trails (mainLoop T svc eligible (Suc i) startIndex st) ! i"
    by (simp add: mainLoop_outside)
  then show ?thesis using assms(1) by (simp add: mainLoop_Suc)
qed

lemma processed_trail:
  assumes "startIndex \<le> i" and "i < total'" and "total' \<le> length (trails st)"
    and "\<not> has_profile (trails st ! i)"
  shows "trails (mainLoop T svc eligible total' startIndex st) ! i =
     (if i \<in> eligible
      then fst (usgsProfile T (svc i) (resolveBaseFields T (trails st ! i))
                 (progress (mainLoop T svc eligible i startIndex st)))
      else (resolveBaseFields T (trails st ! i))
             \<lparr>elevation_profile := Some (interpolateProfile (resolveBaseFields T (trails st ! i)) 10),
              elevation_gain := halfSpreadGain (resolveBaseFields T (trails st ! i))\<rparr>)"
proof -
  define s where "s = mainLoop T svc eligible i startIndex st"
  have t: "trails s ! i = trails st ! i" by (simp add: s_def mainLoop_outside)
  have l: "i < length (trails s)" using assms(2,3) by (simp add: s_def)
  have np: "\<not> has_profile (trails s ! i)" using assms(4) by (simp add: t)
  show ?thesis
    using mainLoop_trail [OF assms(1,2), of T svc eligible st] iteration_trail [OF np l, of T svc eligible]
    by (simp add: s_def [symmetric] t)
qed

lemma single_fallback_run:
  assumes "\<not> has_profile t" and "resolvedPoints T (svc 0) (resolveBaseFields T t) = []"
  shows "\<exists>st'. enrichTrailsWithElevation T svc (noFiles\<lparr>input_file := Some [t]\<rparr>) = Inr st' \<and>
     hd (trails st') =
       (resolveBaseFields T t)
         \<lparr>elevation_profile := Some (interpolateProfile (resolveBaseFields T t) 10),
          elevation_gain := halfSpreadGain (resolveBaseFields T t)\<rparr>"
proof -
  define f where "f = noFiles\<lparr>input_file := Some [t]\<rparr>"
  define st where "st = \<lparr>trails = [t], progress = loadProgress f, fs = f, writes = []\<rparr>"
  define s where "s = mainLoop T svc (usgsEligible [t]) (length [t])
      (nat (lastProcessedIndex (loadProgress f) + 1)) st"
  have i: "loadInput f = Some [t]" by (simp add: f_def loadInput_def noFiles_def)
  have p: "lastProcessedIndex (loadProgress f) + 1 = 0"
    by (simp add: f_def loadProgress_def noFiles_def)
  have r: "[t] = resumeTrails f (lastProcessedIndex (loadProgress f) + 1) [t]"
    by (simp add: p resumeTrails_def)
  from enrich_result [OF i _ r s_def [unfolded st_def]] p obtain st' where st':
    "enrichTrailsWithElevation T svc f = Inr st'" "trails st' = trails s"
    by auto
  have "trails s ! 0 =
      (resolveBaseFields T t)
         \<lparr>elevation_profile := Some (interpolateProfile (resolveBaseFields T t) 10),
          elevation_gain := halfSpreadGain (resolveBaseFields T t)\<rparr>"
    unfolding s_def p using assms
    by (subst processed_trail) (simp_all add: st_def usgsProfile_fallback)
  moreover have "length (trails s) = 1" by (simp add: s_def st_def)
  then have "hd (trails s) = trails s ! 0" by (cases "trails s") simp_all
  ultimately show ?thesis using st' unfolding f_def by auto
qed

lemma resolvedPoints_allDown: "resolvedPoints T (allDown i) trail = []"
  unfolding allDown_def by (rule resolvedPoints_none) (rule getElevation_down)

text \<open>
  Claim C2, as the code has it, for a trail that the main loop processes (one of its range
  that carries no profile when the loop starts). When the trail is eligible and at least
  one sampled point resolves, its profile after the loop is the resolved points in sample
  order, and its gain is present, equal to the sum of the positive deltas between
  consecutive profile elevations, and not negative. Otherwise (the trail is not eligible,
  or no point resolved) the profile is the interpolated one and the gain is
  \<open>halfSpreadGain\<close>: half the spread between the supplied maximum and minimum,
  rounded, when both are present and not zero, and absent otherwise.
\<close>

theorem gain_of_processed_trail:
  assumes "startIndex \<le> i" and "i < total'" and "total' \<le> length (trails st)"
    and "\<not> has_profile (trails st ! i)"
  shows
    "(i \<in> eligible \<and> resolvedPoints T (svc i) (resolveBaseFields T (trails st ! i)) \<noteq> [] \<longrightarrow>
        elevation_profile (trails (mainLoop T svc eligible total' startIndex st) ! i) =
          Some (resolvedPoints T (svc i) (resolveBaseFields T (trails st ! i))) \<and>
        elevation_gain (trails (mainLoop T svc eligible total' startIndex st) ! i) =
          Some (positiveDeltaSum
            (map elevation_m (resolvedPoints T (svc i) (resolveBaseFields T (trails st ! i))))) \<and>
        positiveDeltaSum
            (map elevation_m (resolvedPoints T (svc i) (resolveBaseFields T (trails st ! i)))) =
          (\<Sum>k<length (resolvedPoints T (svc i) (resolveBaseFields T (trails st ! i))) - 1.
             max 0 (elevation_m (resolvedPoints T (svc i) (resolveBaseFields T (trails st ! i)) ! Suc k) -
                    elevation_m (resolvedPoints T (svc i) (resolveBaseFields T (trails st ! i)) ! k))) \<and>
        0 \<le> positiveDeltaSum
            (map elevation_m (resolvedPoints T (svc i) (resolveBaseFields T (trails st ! i))))) \<and>
     (i \<notin> eligible \<or> resolvedPoints T (svc i) (resolveBaseFields T (trails st ! i)) = [] \<longrightarrow>
        elevation_profile (trails (mainLoop T svc eligible total' startIndex st) ! i) =
          Some (interpolateProfile (resolveBaseFields T (trails st ! i)) 10) \<and>
        elevation_gain (trails (mainLoop T svc eligible total' startIndex st) ! i) =
          halfSpreadGain (resolveBaseFields T (trails st ! i)))"
proof (intro conjI impI)
  assume a: "i \<in> eligible \<and> resolvedPoints T (svc i) (resolveBaseFields T (trails st ! i)) \<noteq> []"
  then have t: "trails (mainLoop T svc eligible total' startIndex st) ! i =
      fst (usgsProfile T (svc i) (resolveBaseFields T (trails st ! i))
            (progress (mainLoop T svc eligible i startIndex st)))"
    using assms by (simp add: processed_trail)
  show "elevation_profile (trails (mainLoop T svc eligible total' startIndex st) ! i) =
          Some (resolvedPoints T (svc i) (resolveBaseFields T (trails st ! i)))"
    unfolding t using a by (simp add: usgsProfile_resolved)
  show "elevation_gain (trails (mainLoop T svc eligible total' startIndex st) ! i) =
          Some (positiveDeltaSum
            (map elevation_m (resolvedPoints T (svc i) (resolveBaseFields T (trails st ! i)))))"
    unfolding t using a by (simp add: usgsProfile_resolved)
  show "positiveDeltaSum
            (map elevation_m (resolvedPoints T (svc i) (resolveBaseFields T (trails st ! i)))) =
          (\<Sum>k<length (resolvedPoints T (svc i) (resolveBaseFields T (trails st ! i))) - 1.
             max 0 (elevation_m (resolvedPoints T (svc i) (resolveBaseFields T (trails st ! i)) ! Suc k) -
                    elevation_m (resolvedPoints T (svc i) (resolveBaseFields T (trails st ! i)) ! k)))"
    by (rule positiveDeltaSum_nth)
  show "0 \<le> positiveDeltaSum
            (map elevation_m (resolvedPoints T (svc i) (resolveBaseFields T (trails st ! i))))"
    by (rule positiveDeltaSum_nonneg)
next
  assume a: "i \<notin> eligible \<or> resolvedPoints T (svc i) (resolveBaseFields T (trails st ! i)) = []"
  then have t: "trails (mainLoop T svc eligible total' startIndex st) ! i =
      (resolveBaseFields T (trails st ! i))
         \<lparr>elevation_profile := Some (interpolateProfile (resolveBaseFields T (trails st ! i)) 10),
          elevation_gain := halfSpreadGain (resolveBaseFields T (trails st ! i))\<rparr>"
    using assms by (auto simp: processed_trail usgsProfile_fallback)
  show "elevation_profile (trails (mainLoop T svc eligible total' startIndex st) ! i) =
          Some (interpolateProfile (resolveBaseFields T (trails st ! i)) 10)"
    unfolding t by simp
  show "elevation_gain (trails (mainLoop T svc eligible total' startIndex st) ! i) =
          halfSpreadGain (resolveBaseFields T (trails st ! i))"
    unfolding t by simp
qed

text \<open>
  A trail along \<open>lineGeometry\<close> with no supplied elevations, against a service that
  answers everywhere: once eligible, once not.
\<close>

theorem gain_of_processed_trail_witness:
  "resolvedPoints exTurf (allSteady 0) (resolveBaseFields exTurf lineTrail) \<noteq> [] \<and>
   (\<exists>g. elevation_gain
      (trails (mainLoop exTurf allSteady {0} 1 0 (startState [lineTrail])) ! 0) = Some g \<and>
      0 \<le> g) \<and>
   elevation_gain
      (trails (mainLoop exTurf allSteady {} 1 0 (startState [lineTrail])) ! 0) = None"
proof -
  have a: "(0::nat) \<le> 0" "(0::nat) < 1" by simp_all
  have len: "1 \<le> length (trails (startState [lineTrail]))" by (simp add: startState_def)
  have np: "\<not> has_profile (trails (startState [lineTrail]) ! 0)"
    by (simp add: startState_def lineTrail_def blankTrail_def has_profile_def)
  have tr: "trails (startState [lineTrail]) ! 0 = lineTrail" by (simp add: startState_def)
  have "length (samplePoints exTurf lineGeometry PROFILE_SAMPLES None) = PROFILE_SAMPLES"
    using samplePoints_ok [of lineGeometry exTurf PROFILE_SAMPLES None]
    by (auto simp: lineGeometry_def exTurf_def)
  then have "length (resolvedPoints exTurf (allSteady 0) (resolveBaseFields exTurf lineTrail)) = 15"
    by (subst resolvedPoints_all)
      (simp_all add: allSteady_def getElevation_steady lineTrail_def blankTrail_def
        PROFILE_SAMPLES_def)
  then have ne: "resolvedPoints exTurf (allSteady 0) (resolveBaseFields exTurf lineTrail) \<noteq> []"
    by auto
  have h: "halfSpreadGain (resolveBaseFields exTurf lineTrail) = None"
    by (simp add: halfSpreadGain_def lineTrail_def blankTrail_def)
  show ?thesis
    using ne h
      gain_of_processed_trail [OF a len np, of "{0}" exTurf allSteady]
      gain_of_processed_trail [OF a len np, of "{}" exTurf allSteady]
    by (simp add: tr)
qed

text \<open>
  The claim as stated fails on a trail whose profile is interpolated. A run over the one
  trail from 1000 m to 1900 m with no geometry ends with the gain 450, half the spread,
  while the positive deltas of the trail's profile add up to 800.
\<close>

theorem gain_not_profile_deltas_counterexample:
  "map_sum id (elevation_gain \<circ> hd \<circ> trails)
     (enrichTrailsWithElevation exTurf allDown hillFiles) = Inr (Some 450) \<and>
   map_sum id (map_option (map elevation_m) \<circ> elevation_profile \<circ> hd \<circ> trails)
     (enrichTrailsWithElevation exTurf allDown hillFiles) =
     Inr (Some [1000, 1200, 1400, 1600, 1800, 1800, 1600, 1400, 1200, 1000]) \<and>
   positiveDeltaSum [1000, 1200, 1400, 1600, 1800, 1800, 1600, 1400, 1200, 1000] = 800"
proof -
  define base where "base = resolveBaseFields exTurf hillTrail"
  have np: "\<not> has_profile hillTrail"
    by (simp add: hillTrail_def blankTrail_def has_profile_def)
  from single_fallback_run [where T = exTurf and svc = allDown and t = hillTrail,
      OF np resolvedPoints_allDown] obtain st' where st':
    "enrichTrailsWithElevation exTurf allDown hillFiles = Inr st'"
    "hd (trails st') = base\<lparr>elevation_profile := Some (interpolateProfile base 10),
        elevation_gain := halfSpreadGain base\<rparr>"
    unfolding hillFiles_def base_def by blast
  have g: "halfSpreadGain base = Some 450"
    by (simp add: base_def halfSpreadGain_def hillTrail_def blankTrail_def js_round_def)
  have m: "minElevOf base = 1000" "maxElevOf base = 1900"
    by (simp_all add: base_def minElevOf_def maxElevOf_def nullish_def hillTrail_def blankTrail_def)
  have p: "map elevation_m (interpolateProfile base 10) =
      [1000, 1200, 1400, 1600, 1800, 1800, 1600, 1400, 1200, 1000]"
    by (simp add: interpolate_elevations Let_def m js_round_def)
  show ?thesis by (simp add: st' g p)
qed

text \<open>
  Claim C3, as the code has it. For an eligible trail that the main loop processes and of
  which no point resolves, the profile after the loop is the interpolated one, and the gain
  is half the spread between the supplied maximum and minimum, rounded, when both are
  present and not zero; the gain is absent exactly when one of them is absent or zero.
\<close>

theorem fallback_of_unresolved_trail:
  assumes "startIndex \<le> i" and "i < total'" and "total' \<le> length (trails st)"
    and "\<not> has_profile (trails st ! i)" and "i \<in> eligible"
    and "resolvedPoints T (svc i) (resolveBaseFields T (trails st ! i)) = []"
  shows "elevation_profile (trails (mainLoop T svc eligible total' startIndex st) ! i) =
        Some (interpolateProfile (resolveBaseFields T (trails st ! i)) 10) \<and>
     elevation_gain (trails (mainLoop T svc eligible total' startIndex st) ! i) =
       (case elevation_max_m (trails st ! i) of
          None \<Rightarrow> None
        | Some mx \<Rightarrow>
            (case elevation_min_m (trails st ! i) of
               None \<Rightarrow> None
             | Some mn \<Rightarrow> if mx \<noteq> 0 \<and> mn \<noteq> 0 then Some (js_round ((mx - mn) / 2)) else None)) \<and>
     (elevation_gain (trails (mainLoop T svc eligible total' startIndex st) ! i) = None) =
       (\<not> (truthy (elevation_max_m (trails st ! i)) \<and> truthy (elevation_min_m (trails st ! i))))"
proof -
  have t: "trails (mainLoop T svc eligible total' startIndex st) ! i =
      (resolveBaseFields T (trails st ! i))
         \<lparr>elevation_profile := Some (interpolateProfile (resolveBaseFields T (trails st ! i)) 10),
          elevation_gain := halfSpreadGain (resolveBaseFields T (trails st ! i))\<rparr>"
    using assms by (simp add: processed_trail usgsProfile_fallback)
  show ?thesis
    unfolding t by (auto simp: halfSpreadGain_def truthy_def split: option.splits)
qed

text \<open>
  Against a service that is down: the trail with no supplied elevations gets no gain, the
  trail from 2400 m to 3000 m gets 300.
\<close>

theorem fallback_of_unresolved_trail_witness:
  "resolvedPoints exTurf (allDown 0) (resolveBaseFields exTurf lineTrail) = [] \<and>
   elevation_gain
     (trails (mainLoop exTurf allDown {0} 1 0 (startState [lineTrail])) ! 0) = None \<and>
   elevation_gain
     (trails (mainLoop exTurf allDown {0} 1 0 (startState [ridgeTrail])) ! 0) = Some 300"
proof -
  have a: "(0::nat) \<le> 0" "(0::nat) < 1" by simp_all
  have len: "1 \<le> length (trails (startState [t]))" for t by (simp add: startState_def)
  have np: "\<not> has_profile (trails (startState [lineTrail]) ! 0)"
    by (simp add: startState_def lineTrail_def blankTrail_def has_profile_def)
  have np': "\<not> has_profile (trails (startState [ridgeTrail]) ! 0)"
    by (simp add: startState_def ridgeTrail_def blankTrail_def has_profile_def)
  have e: "(0::nat) \<in> {0}" by simp
  show ?thesis
    using resolvedPoints_allDown [of exTurf 0 "resolveBaseFields exTurf lineTrail"]
      fallback_of_unresolved_trail [OF a len np e resolvedPoints_allDown]
      fallback_of_unresolved_trail [OF a len np' e resolvedPoints_allDown]
    by (simp add: startState_def lineTrail_def ridgeTrail_def blankTrail_def js_round_def)
qed

text \<open>
  The claim as stated leaves the gain absent whenever no point resolves. In a run over the
  one trail from 2400 m to 3000 m the trail is eligible, the service is down, so no point
  resolves, and the gain is 300.
\<close>

theorem fallback_gain_present_counterexample:
  "0 \<in> usgsEligible [ridgeTrail] \<and>
   resolvedPoints exTurf (allDown 0) (resolveBaseFields exTurf ridgeTrail) = [] \<and>
   map_sum id (elevation_gain \<circ> hd \<circ> trails)
     (enrichTrailsWithElevation exTurf allDown ridgeFiles) = Inr (Some 300)"
proof -
  define base where "base = resolveBaseFields exTurf ridgeTrail"
  have np: "\<not> has_profile ridgeTrail"
    by (simp add: ridgeTrail_def blankTrail_def has_profile_def)
  from single_fallback_run [where T = exTurf and svc = allDown and t = ridgeTrail,
      OF np resolvedPoints_allDown] obtain st' where st':
    "enrichTrailsWithElevation exTurf allDown ridgeFiles = Inr st'"
    "hd (trails st') = base\<lparr>elevation_profile := Some (interpolateProfile base 10),
        elevation_gain := halfSpreadGain base\<rparr>"
    unfolding ridgeFiles_def base_def by blast
  have g: "halfSpreadGain base = Some 300"
    by (simp add: base_def halfSpreadGain_def ridgeTrail_def blankTrail_def js_round_def)
  show ?thesis
    by (simp add: st' g usgsEligible_single resolvedPoints_allDown)
qed

end
